(* ===== verification/Prelude.thy ===== *)
theory Prelude
  imports Main "HOL-Library.Word" "HOL-Library.AList"
begin

text \<open>
  Shared vocabulary of the development.

  The C++ sources mutate objects and throw exceptions, and an exception does not undo the
  mutations made before it. A computation is therefore a function from a state to a result
  \<^emph>\<open>and\<close> a state: \<open>(Inr a, s')\<close> for a normal return, \<open>(Inl e, s')\<close> for an
  exception that leaves the state \<open>s'\<close> behind. \<open>Undefined\<close> is the value of an execution
  that runs into undefined behaviour (an index outside a vector, a signed overflow) and
  \<open>Out_Of_Fuel\<close> that of a loop that has not ended within its bound.

  Signed and unsigned machine integers are \<open>int\<close> values with the conversions of C++
  (\<open>to_i32\<close>, \<open>to_u32\<close>, \<open>to_i64\<close>) written where the source converts.
\<close>

section \<open>Errors and computations\<close>

datatype error =
    Runtime_Error string
  | Invalid_Argument string
  | Undefined
  | Out_Of_Fuel

type_synonym 'a res = "error + 'a"
type_synonym ('s, 'a) comp = "'s \<Rightarrow> 'a res \<times> 's"

definition returnM :: "'a \<Rightarrow> ('s, 'a) comp" where
  "returnM a s = (Inr a, s)"

definition throwM :: "error \<Rightarrow> ('s, 'a) comp" where
  "throwM e s = (Inl e, s)"

definition bindM :: "('s, 'a) comp \<Rightarrow> ('a \<Rightarrow> ('s, 'b) comp) \<Rightarrow> ('s, 'b) comp" where
  "bindM m f s = (case m s of (Inl e, s') \<Rightarrow> (Inl e, s') | (Inr a, s') \<Rightarrow> f a s')"

definition thenM :: "('s, 'a) comp \<Rightarrow> ('s, 'b) comp \<Rightarrow> ('s, 'b) comp" where
  "thenM m k = bindM m (\<lambda>_. k)"

definition getM :: "('s \<Rightarrow> 'a) \<Rightarrow> ('s, 'a) comp" where
  "getM f s = (Inr (f s), s)"

definition modifyM :: "('s \<Rightarrow> 's) \<Rightarrow> ('s, unit) comp" where
  "modifyM f s = (Inr (), f s)"

text \<open>A result without effects as a computation.\<close>

definition liftM :: "'a res \<Rightarrow> ('s, 'a) comp" where
  "liftM r s = (r, s)"

text \<open>A computation on a part of the state: \<open>get\<close> reads the part, \<open>put\<close> writes it back.\<close>

definition zoomM :: "('t \<Rightarrow> 's) \<Rightarrow> ('s \<Rightarrow> 't \<Rightarrow> 't) \<Rightarrow> ('s, 'a) comp \<Rightarrow> ('t, 'a) comp" where
  "zoomM get put m t = (case m (get t) of (r, s') \<Rightarrow> (r, put s' t))"

text \<open>A range-based \<open>for\<close> loop over a vector.\<close>

primrec foreachM :: "'a list \<Rightarrow> ('a \<Rightarrow> ('s, unit) comp) \<Rightarrow> ('s, unit) comp" where
  "foreachM [] f = returnM ()"
| "foreachM (x # xs) f = thenM (f x) (foreachM xs f)"

text \<open>The facts by which a computation is run symbolically.\<close>

named_theorems run

lemma returnM_run [run]: "returnM a s = (Inr a, s)"
  by (simp add: returnM_def)

lemma throwM_run [run]: "throwM e s = (Inl e, s)"
  by (simp add: throwM_def)

lemma getM_run [run]: "getM f s = (Inr (f s), s)"
  by (simp add: getM_def)

lemma modifyM_run [run]: "modifyM f s = (Inr (), f s)"
  by (simp add: modifyM_def)

lemma liftM_run [run]: "liftM r s = (r, s)"
  by (simp add: liftM_def)

lemma bindM_Inr [run]: "m s = (Inr a, s') \<Longrightarrow> bindM m f s = f a s'"
  by (simp add: bindM_def)

lemma bindM_Inl [run]: "m s = (Inl e, s') \<Longrightarrow> bindM m f s = (Inl e, s')"
  by (simp add: bindM_def)

lemma thenM_Inr [run]: "m s = (Inr a, s') \<Longrightarrow> thenM m k s = k s'"
  by (simp add: thenM_def bindM_def)

lemma thenM_Inl [run]: "m s = (Inl e, s') \<Longrightarrow> thenM m k s = (Inl e, s')"
  by (simp add: thenM_def bindM_def)

lemma zoomM_run [run]: "m (get t) = (r, s') \<Longrightarrow> zoomM get put m t = (r, put s' t)"
  by (simp add: zoomM_def)

lemma bindM_liftM: "bindM (liftM (Inr a)) f = f a"
  by (simp add: bindM_def liftM_def fun_eq_iff)

text \<open>Unconditional rules that unfold a computation in an assumption.\<close>

named_theorems steps

lemma bindM_getM [steps]: "bindM (getM f) k s = k (f s) s"
  by (simp add: bindM_def getM_def)

lemma bindM_returnM [steps]: "bindM (returnM a) k s = k a s"
  by (simp add: bindM_def returnM_def)

lemma bindM_throwM [steps]: "bindM (throwM e) k s = (Inl e, s)"
  by (simp add: bindM_def throwM_def)

lemma bindM_bindM [steps]: "bindM (bindM m g) k s = bindM m (\<lambda>a. bindM (g a) k) s"
  by (auto simp: bindM_def split: prod.splits sum.splits)

lemma bindM_thenM [steps]: "bindM (thenM m m') k s = thenM m (bindM m' k) s"
  by (simp add: thenM_def bindM_bindM)

lemma bindM_if [steps]: "bindM (if b then m else m') k s = (if b then bindM m k s else bindM m' k s)"
  by simp

lemma thenM_modifyM [steps]: "thenM (modifyM f) k s = k (f s)"
  by (simp add: thenM_def bindM_def modifyM_def)

lemma thenM_returnM [steps]: "thenM (returnM a) k s = k s"
  by (simp add: thenM_def bindM_returnM)

lemma thenM_throwM [steps]: "thenM (throwM e) k s = (Inl e, s)"
  by (simp add: thenM_def bindM_throwM)

lemma thenM_thenM [steps]: "thenM (thenM m m') k s = thenM m (thenM m' k) s"
  by (simp add: thenM_def bindM_bindM)

lemma thenM_bindM [steps]: "thenM (bindM m g) k s = bindM m (\<lambda>a. thenM (g a) k) s"
  by (simp add: thenM_def bindM_bindM)

lemma thenM_if [steps]: "thenM (if b then m else m') k s = (if b then thenM m k s else thenM m' k s)"
  by simp

lemma thenM_liftM [steps]: "thenM (liftM (Inr a)) k s = k s" "thenM (liftM (Inl e)) k s = (Inl e, s)"
  by (simp_all add: thenM_def bindM_def liftM_def)

lemmas final_steps [steps] = returnM_run throwM_run getM_run modifyM_run

lemma bindM_Inr_E:
  assumes "bindM m f s = (Inr b, t)"
  obtains a s' where "m s = (Inr a, s')" and "f a s' = (Inr b, t)"
  using assms by (auto simp: bindM_def split: prod.splits sum.splits)

lemma thenM_Inr_E:
  assumes "thenM m k s = (Inr b, t)"
  obtains a s' where "m s = (Inr a, s')" and "k s' = (Inr b, t)"
  using assms unfolding thenM_def by (rule bindM_Inr_E)

text \<open>
  A property of states that every step of a computation keeps is kept by the whole
  computation, whether it returns or throws.
\<close>

definition keeps :: "('s \<Rightarrow> bool) \<Rightarrow> ('s, 'a) comp \<Rightarrow> bool" where
  "keeps P m \<longleftrightarrow> (\<forall>s. P s \<longrightarrow> P (snd (m s)))"

named_theorems keeps_rules

lemma keeps_D: "keeps P m \<Longrightarrow> P s \<Longrightarrow> m s = (r, s') \<Longrightarrow> P s'"
  by (force simp: keeps_def)

lemma keeps_return [keeps_rules]: "keeps P (returnM a)"
  by (simp add: keeps_def returnM_def)

lemma keeps_throw [keeps_rules]: "keeps P (throwM e)"
  by (simp add: keeps_def throwM_def)

lemma keeps_get [keeps_rules]: "keeps P (getM f)"
  by (simp add: keeps_def getM_def)

lemma keeps_lift [keeps_rules]: "keeps P (liftM r)"
  by (simp add: keeps_def liftM_def)

lemma keeps_bind [keeps_rules]: "keeps P m \<Longrightarrow> (\<And>a. keeps P (f a)) \<Longrightarrow> keeps P (bindM m f)"
  by (fastforce simp: keeps_def bindM_def split: prod.splits sum.splits)

lemma keeps_then [keeps_rules]: "keeps P m \<Longrightarrow> keeps P k \<Longrightarrow> keeps P (thenM m k)"
  by (simp add: thenM_def keeps_bind)

lemma keeps_foreach [keeps_rules]: "(\<And>x. keeps P (f x)) \<Longrightarrow> keeps P (foreachM xs f)"
  by (induction xs) (simp_all add: keeps_return keeps_then)

section \<open>Machine integers\<close>

definition in_i32 :: "int \<Rightarrow> bool" where
  "in_i32 x \<longleftrightarrow> - (2 ^ 31) \<le> x \<and> x < 2 ^ 31"

definition in_i64 :: "int \<Rightarrow> bool" where
  "in_i64 x \<longleftrightarrow> - (2 ^ 63) \<le> x \<and> x < 2 ^ 63"

definition in_u32 :: "int \<Rightarrow> bool" where
  "in_u32 x \<longleftrightarrow> 0 \<le> x \<and> x < 2 ^ 32"

text \<open>The two's complement value of the low \<open>w\<close> bits.\<close>

definition sign_wrap :: "nat \<Rightarrow> int \<Rightarrow> int" where
  "sign_wrap w x = (x + 2 ^ (w - 1)) mod 2 ^ w - 2 ^ (w - 1)"

definition to_u32 :: "int \<Rightarrow> int" where "to_u32 x = x mod 2 ^ 32"
definition to_u64 :: "int \<Rightarrow> int" where "to_u64 x = x mod 2 ^ 64"
definition to_i32 :: "int \<Rightarrow> int" where "to_i32 x = sign_wrap 32 x"
definition to_i64 :: "int \<Rightarrow> int" where "to_i64 x = sign_wrap 64 x"

lemma sign_wrap_id:
  assumes "0 < w" and "- (2 ^ (w - 1)) \<le> x" and "x < 2 ^ (w - 1)"
  shows "sign_wrap w x = x"
proof -
  have "(2::int) ^ w = 2 ^ (w - 1) + 2 ^ (w - 1)"
    using assms(1) by (cases w) auto
  with assms show ?thesis by (simp add: sign_wrap_def)
qed

lemma sign_wrap_mod: "sign_wrap w (x mod 2 ^ w) = sign_wrap w x"
  by (simp add: sign_wrap_def mod_simps)

lemma sign_wrap_range:
  assumes "0 < w"
  shows "- (2 ^ (w - 1)) \<le> sign_wrap w x \<and> sign_wrap w x < 2 ^ (w - 1)"
proof -
  have "(2::int) ^ w = 2 ^ (w - 1) + 2 ^ (w - 1)"
    using assms by (cases w) auto
  moreover have "0 \<le> (x + 2 ^ (w - 1)) mod 2 ^ w" and "(x + 2 ^ (w - 1)) mod 2 ^ w < 2 ^ w"
    by simp_all
  ultimately show ?thesis unfolding sign_wrap_def by linarith
qed

lemma to_i32_id [simp]: "in_i32 x \<Longrightarrow> to_i32 x = x"
  by (simp add: to_i32_def in_i32_def sign_wrap_id)

lemma to_i64_id [simp]: "in_i64 x \<Longrightarrow> to_i64 x = x"
  by (simp add: to_i64_def in_i64_def sign_wrap_id)

lemma in_i32_to_i32 [simp]: "in_i32 (to_i32 x)"
  using sign_wrap_range [of 32 x] by (simp add: in_i32_def to_i32_def)

lemma to_u32_id [simp]: "in_u32 x \<Longrightarrow> to_u32 x = x"
  by (simp add: to_u32_def in_u32_def)

lemma to_u32_to_u32 [simp]: "to_u32 (to_u32 x) = to_u32 x"
  by (simp add: to_u32_def)

lemma to_i32_to_u32 [simp]: "to_i32 (to_u32 x) = to_i32 x"
  using sign_wrap_mod [of 32 x] by (simp add: to_i32_def to_u32_def)

lemma to_u32_to_i32: "in_u32 x \<Longrightarrow> to_u32 (to_i32 x) = x"
  by (simp add: to_u32_def to_i32_def sign_wrap_def in_u32_def mod_simps)

lemma to_i64_to_u64 [simp]: "to_i64 (to_u64 x) = to_i64 x"
  using sign_wrap_mod [of 64 x] by (simp add: to_i64_def to_u64_def)

section \<open>Lists\<close>

text \<open>\<open>std::lower_bound\<close>, \<open>std::upper_bound\<close> and \<open>std::find\<close> as indices.\<close>

definition lower_bound :: "int list \<Rightarrow> int \<Rightarrow> nat" where
  "lower_bound ks k = length (takeWhile (\<lambda>x. x < k) ks)"

definition upper_bound :: "int list \<Rightarrow> int \<Rightarrow> nat" where
  "upper_bound ks k = length (takeWhile (\<lambda>x. x \<le> k) ks)"

definition find_index :: "'a list \<Rightarrow> 'a \<Rightarrow> nat" where
  "find_index xs x = length (takeWhile (\<lambda>y. y \<noteq> x) xs)"

definition insert_at :: "nat \<Rightarrow> 'a \<Rightarrow> 'a list \<Rightarrow> 'a list" where
  "insert_at i x xs = take i xs @ x # drop i xs"

definition remove_at :: "nat \<Rightarrow> 'a list \<Rightarrow> 'a list" where
  "remove_at i xs = take i xs @ drop (Suc i) xs"

lemma length_insert_at [simp]: "length (insert_at i x xs) = Suc (length xs)"
  by (simp add: insert_at_def)

lemma length_remove_at [simp]: "i < length xs \<Longrightarrow> length (remove_at i xs) = length xs - 1"
  by (simp add: remove_at_def)

lemma lower_bound_le [simp]: "lower_bound ks k \<le> length ks"
  by (simp add: lower_bound_def length_takeWhile_le)

lemma upper_bound_le [simp]: "upper_bound ks k \<le> length ks"
  by (simp add: upper_bound_def length_takeWhile_le)

lemma find_index_less: "x \<in> set xs \<Longrightarrow> find_index xs x < length xs"
  unfolding find_index_def by (induction xs) auto

lemma find_index_nth: "x \<in> set xs \<Longrightarrow> xs ! find_index xs x = x"
  unfolding find_index_def by (induction xs) auto

lemma find_index_distinct:
  "distinct xs \<Longrightarrow> i < length xs \<Longrightarrow> find_index xs (xs ! i) = i"
  by (metis find_index_less find_index_nth nth_eq_iff_index_eq nth_mem)

end
