(* ===== verification/Bytes.thy ===== *)
theory Bytes
  imports Prelude
begin

text \<open>
  Byte buffers. A \<open>char\<close> array and a \<open>std::string\<close> used as a buffer are lists of 8-bit
  words. \<open>memcpy\<close> of an integer object copies its object representation: the machine is
  little-endian with two's complement integers (\<open>le_bytes\<close>), and \<open>htonl\<close> followed by
  \<open>memcpy\<close> gives the big-endian representation (\<open>be_bytes\<close>) on every machine.
  A writer is a pair of the buffer and the running offset, as in the sources.
\<close>

type_synonym byte = "8 word"
type_synonym bytes = "byte list"

section \<open>Integers as bytes\<close>

primrec le_bytes :: "nat \<Rightarrow> int \<Rightarrow> bytes" where
  "le_bytes 0 x = []"
| "le_bytes (Suc n) x = word_of_int x # le_bytes n (x div 256)"

primrec le_uint :: "bytes \<Rightarrow> int" where
  "le_uint [] = 0"
| "le_uint (b # bs) = uint b + 256 * le_uint bs"

definition le_sint :: "bytes \<Rightarrow> int" where
  "le_sint bs = sign_wrap (8 * length bs) (le_uint bs)"

definition be_bytes :: "nat \<Rightarrow> int \<Rightarrow> bytes" where
  "be_bytes n x = rev (le_bytes n x)"

definition be_uint :: "bytes \<Rightarrow> int" where
  "be_uint bs = le_uint (rev bs)"

text \<open>A 64-bit value written as its high and its low 32-bit half, each in network order.\<close>

definition be_u64 :: "int \<Rightarrow> bytes" where
  "be_u64 x = be_bytes 4 (to_u64 x div 2 ^ 32) @ be_bytes 4 (to_u64 x mod 2 ^ 32)"

text \<open>\<open>(high << 32) | low\<close> of two 32-bit values.\<close>

definition u64_of_halves :: "int \<Rightarrow> int \<Rightarrow> int" where
  "u64_of_halves high low = high * 2 ^ 32 + low"

section \<open>Buffers\<close>

definition memcpy_at :: "bytes \<Rightarrow> nat \<Rightarrow> bytes \<Rightarrow> bytes" where
  "memcpy_at buf off bs = take off buf @ bs @ drop (off + length bs) buf"

definition read_at :: "bytes \<Rightarrow> nat \<Rightarrow> nat \<Rightarrow> bytes" where
  "read_at buf off n = take n (drop off buf)"

type_synonym writer = "bytes \<times> nat"

fun put_bytes :: "bytes \<Rightarrow> writer \<Rightarrow> writer" where
  "put_bytes bs (buf, off) = (memcpy_at buf off bs, off + length bs)"

section \<open>Facts about integers as bytes\<close>

lemma length_le_bytes [simp]: "length (le_bytes n x) = n"
  by (induction n arbitrary: x) auto

lemma length_be_bytes [simp]: "length (be_bytes n x) = n"
  by (simp add: be_bytes_def)

lemma length_be_u64 [simp]: "length (be_u64 x) = 8"
  by (simp add: be_u64_def)

lemma le_uint_le_bytes: "le_uint (le_bytes n x) = x mod 256 ^ n"
proof (induction n arbitrary: x)
  case 0
  then show ?case by simp
next
  case (Suc n)
  have "x mod 256 ^ Suc n = x mod 256 + 256 * (x div 256 mod 256 ^ n)"
    by (simp add: zmod_zmult2_eq)
  then show ?case using Suc by (simp add: uint_word_of_int)
qed

lemma le_uint_range: "0 \<le> le_uint bs \<and> le_uint bs < 256 ^ length bs"
proof (induction bs)
  case Nil
  then show ?case by simp
next
  case (Cons b bs)
  have "0 \<le> uint b" and "uint b < 256"
    using uint_range_size [of b] by (simp_all add: word_size)
  with Cons show ?case by simp
qed

lemma le_bytes_le_uint: "le_bytes (length bs) (le_uint bs) = bs"
proof (induction bs)
  case (Cons b bs)
  have b: "0 \<le> uint b" "uint b < 256"
    using uint_range_size [of b] by (simp_all add: word_size)
  then have "(uint b + 256 * le_uint bs) div 256 = le_uint bs" by simp
  moreover have "word_of_int (uint b + 256 * le_uint bs) = b"
  proof -
    have "(256::byte) = 0" by (rule word_uint_eqI) simp
    then have "256 * (word_of_int (le_uint bs) :: byte) = 0" by (metis mult_zero_left)
    then show ?thesis by simp
  qed
  ultimately show ?case using Cons by simp
qed simp

lemma be_bytes_be_uint: "length bs = n \<Longrightarrow> be_bytes n (be_uint bs) = bs"
  using le_bytes_le_uint [of "rev bs"] by (auto simp: be_bytes_def be_uint_def)

lemma be_uint_u32: "length bs = 4 \<Longrightarrow> in_u32 (be_uint bs)"
  using le_uint_range [of "rev bs"] by (simp add: be_uint_def in_u32_def)

lemma be_uint_be_bytes: "be_uint (be_bytes n x) = x mod 256 ^ n"
  by (simp add: be_uint_def be_bytes_def le_uint_le_bytes)

lemma be_uint_4 [simp]: "be_uint (be_bytes 4 x) = to_u32 x"
  by (simp add: be_uint_be_bytes to_u32_def)

lemma le_uint_4 [simp]: "le_uint (le_bytes 4 x) = to_u32 x"
  by (simp add: le_uint_le_bytes to_u32_def)

lemma uint_byte [simp]: "uint (word_of_int x :: byte) = x mod 256"
  by (simp add: uint_word_of_int)

lemma le_uint_byte: "le_uint (le_bytes (Suc 0) x) = x mod 256"
  by simp

lemma pow256: "(256::int) ^ n = 2 ^ (8 * n)"
  by (simp add: power_mult)

lemma le_sint_le_bytes: "le_sint (le_bytes n x) = sign_wrap (8 * n) x"
  by (simp add: le_sint_def le_uint_le_bytes pow256 sign_wrap_mod)

lemma le_sint_4 [simp]: "le_sint (le_bytes 4 x) = to_i32 x"
  by (simp add: le_sint_le_bytes to_i32_def)

lemma le_sint_8 [simp]: "le_sint (le_bytes 8 x) = to_i64 x"
  by (simp add: le_sint_le_bytes to_i64_def)

lemma u64_of_halves_be_u64:
  "u64_of_halves (be_uint (take 4 (be_u64 x))) (be_uint (drop 4 (be_u64 x))) = to_u64 x"
proof -
  have "to_u64 x div 2 ^ 32 mod 2 ^ 32 = to_u64 x div 2 ^ 32"
    by (simp add: to_u64_def)
  moreover have "to_u64 x mod 2 ^ 32 mod 2 ^ 32 = to_u64 x mod 2 ^ 32"
    by simp
  ultimately show ?thesis
    by (simp add: be_u64_def u64_of_halves_def to_u32_def)
qed

section \<open>Facts about buffers\<close>

lemma length_memcpy_at [simp]:
  "off + length bs \<le> length buf \<Longrightarrow> length (memcpy_at buf off bs) = length buf"
  by (simp add: memcpy_at_def)

lemma length_read_at [simp]: "off + n \<le> length buf \<Longrightarrow> length (read_at buf off n) = n"
  by (simp add: read_at_def)

text \<open>
  Writing consecutive values into a zeroed buffer gives the values one after the other and
  zeros in the rest.
\<close>

lemma put_bytes_zeroed:
  "put_bytes bs (pre @ replicate n 0, length pre) = ((pre @ bs) @ replicate (n - length bs) 0, length (pre @ bs))"
  by (simp add: memcpy_at_def)

lemma fold_put_bytes_zeroed:
  "fold put_bytes bss (pre @ replicate n 0, length pre) =
     ((pre @ concat bss) @ replicate (n - length (concat bss)) 0, length (pre @ concat bss))"
proof (induction bss arbitrary: pre n)
  case Nil
  then show ?case by simp
next
  case (Cons bs bss)
  show ?case
    by (simp only: fold_Cons o_apply put_bytes_zeroed Cons.IH) simp
qed

lemma fold_put_bytes_from_start:
  "fold put_bytes bss (replicate n 0, 0) =
     (concat bss @ replicate (n - length (concat bss)) 0, length (concat bss))"
  using fold_put_bytes_zeroed [of bss "[]" n] by simp

text \<open>Reading the value at the head of the unread rest of a buffer.\<close>

lemma read_at_head: "read_at (pre @ bs @ rest) (length pre) (length bs) = bs"
  by (simp add: read_at_def)

lemma read_at_append:
  "length pre = off \<Longrightarrow> length bs = n \<Longrightarrow> read_at (pre @ bs @ rest) off n = bs"
  by (simp add: read_at_def)

lemma read_at_Cons: "0 < off \<Longrightarrow> read_at (b # bs) off n = read_at bs (off - 1) n"
  by (cases off) (simp_all add: read_at_def)

lemma read_at_skip:
  "length pre \<le> off \<Longrightarrow> read_at (pre @ bs) off n = read_at bs (off - length pre) n"
  by (simp add: read_at_def)

lemma read_at_front: "length bs = n \<Longrightarrow> read_at (bs @ rest) 0 n = bs"
  by (simp add: read_at_def)

lemma read_at_split: "off + n \<le> length bs \<Longrightarrow> drop off bs = read_at bs off n @ drop (off + n) bs"
  by (metis add.commute append_take_drop_id drop_drop read_at_def)

lemma read_at_all: "read_at bs 0 (length bs) = bs"
  by (simp add: read_at_def)

lemmas read_at_simps = read_at_skip read_at_front read_at_all

end
