(* ===== verification/Table_Record.thy ===== *)
theory Table_Record
  imports Bytes
begin

text \<open>
  Records of a table and their fixed-size binary form (\<open>src/src/query/record.h\<close>). A name is a
  byte string; it is stored in 64 bytes, so a longer name is cut, and it is read up to the
  first zero byte.
\<close>

section \<open>Records and format\<close>

record Record =
  rec_id :: int
  rec_name :: bytes
  rec_value :: int

definition RECORD_NAME_SIZE :: nat where
  "RECORD_NAME_SIZE = 64"

definition RECORD_SIZE :: nat where
  "RECORD_SIZE = 8 + RECORD_NAME_SIZE + 8"

definition SerializeRecord :: "Record \<Rightarrow> bytes \<Rightarrow> bytes" where
  "SerializeRecord r buf =
     (let b0 = memcpy_at buf 0 (replicate RECORD_SIZE 0);
          b1 = memcpy_at b0 0 (le_bytes 8 (rec_id r));
          name_size = min (length (rec_name r)) RECORD_NAME_SIZE;
          b2 = memcpy_at b1 8 (take name_size (rec_name r))
      in memcpy_at b2 (8 + RECORD_NAME_SIZE) (le_bytes 8 (rec_value r)))"

definition DeserializeRecord :: "bytes \<Rightarrow> Record" where
  "DeserializeRecord buf =
     \<lparr>rec_id = le_sint (read_at buf 0 8),
      rec_name = takeWhile (\<lambda>b. b \<noteq> 0) (read_at buf 8 RECORD_NAME_SIZE),
      rec_value = le_sint (read_at buf (8 + RECORD_NAME_SIZE) 8)\<rparr>"

section \<open>What is stored of a record\<close>

definition stored_name :: "bytes \<Rightarrow> bytes" where
  "stored_name s = takeWhile (\<lambda>b. b \<noteq> 0) (take RECORD_NAME_SIZE s)"

definition stored :: "Record \<Rightarrow> Record" where
  "stored r = r\<lparr>rec_name := stored_name (rec_name r)\<rparr>"

definition record_ok :: "Record \<Rightarrow> bool" where
  "record_ok r \<longleftrightarrow> in_i64 (rec_id r) \<and> in_i64 (rec_value r)"

section \<open>Round trip\<close>

lemma SerializeRecord_layout:
  assumes "RECORD_SIZE \<le> length buf"
  shows "SerializeRecord r buf = le_bytes 8 (rec_id r) @
    (take RECORD_NAME_SIZE (rec_name r) @ replicate (RECORD_NAME_SIZE - length (rec_name r)) 0) @
    le_bytes 8 (rec_value r) @ drop RECORD_SIZE buf"
  using assms
  by (simp add: SerializeRecord_def Let_def memcpy_at_def RECORD_SIZE_def RECORD_NAME_SIZE_def min_def
      del: le_bytes.simps)

lemma length_SerializeRecord: "RECORD_SIZE \<le> length buf \<Longrightarrow> length (SerializeRecord r buf) = length buf"
  by (simp add: SerializeRecord_layout RECORD_SIZE_def RECORD_NAME_SIZE_def del: le_bytes.simps)

lemma takeWhile_zeros: "takeWhile (\<lambda>b. b \<noteq> (0::byte)) (s @ replicate n 0) = takeWhile (\<lambda>b. b \<noteq> 0) s"
  by (induction s) (auto simp: takeWhile_eq_Nil_iff hd_replicate)

lemma DeserializeRecord_SerializeRecord:
  assumes "record_ok r" and "RECORD_SIZE \<le> length buf"
  shows "DeserializeRecord (SerializeRecord r buf) = stored r"
proof -
  let ?name = "take RECORD_NAME_SIZE (rec_name r) @ replicate (RECORD_NAME_SIZE - length (rec_name r)) (0::byte)"
  have len: "length ?name = RECORD_NAME_SIZE" by simp
  have "read_at (SerializeRecord r buf) 0 8 = le_bytes 8 (rec_id r)"
    and "read_at (SerializeRecord r buf) 8 RECORD_NAME_SIZE = ?name"
    and "read_at (SerializeRecord r buf) (8 + RECORD_NAME_SIZE) 8 = le_bytes 8 (rec_value r)"
    unfolding SerializeRecord_layout [OF assms(2)]
    using len by (simp_all add: read_at_def del: le_bytes.simps)
  then show ?thesis
    using assms(1) by (simp add: DeserializeRecord_def takeWhile_zeros stored_def stored_name_def record_ok_def
        del: le_bytes.simps)
qed

lemma stored_stored [simp]: "stored (stored r) = stored r"
proof -
  have "stored_name (stored_name s) = stored_name s" for s
  proof -
    let ?s = "takeWhile (\<lambda>b. b \<noteq> 0) (take RECORD_NAME_SIZE s)"
    have "length ?s \<le> RECORD_NAME_SIZE" by (rule le_trans [OF length_takeWhile_le]) simp
    moreover have "takeWhile (\<lambda>b. b \<noteq> 0) ?s = ?s" by simp
    ultimately show ?thesis by (simp add: stored_name_def)
  qed
  then show ?thesis by (simp add: stored_def)
qed

text \<open>
  C15. A record written into a buffer is read back with its id and value, and with its name
  up to the first zero byte and to at most 64 bytes; reading changes nothing more, and the
  bytes of the buffer after the record are kept.
\<close>

theorem record_round_trip:
  assumes "record_ok r" and "RECORD_SIZE \<le> length buf"
  shows "DeserializeRecord (SerializeRecord r buf) = stored r \<and>
    drop RECORD_SIZE (SerializeRecord r buf) = drop RECORD_SIZE buf \<and>
    (length (rec_name r) \<le> RECORD_NAME_SIZE \<and> 0 \<notin> set (rec_name r) \<longrightarrow> stored r = r)"
proof -
  have "stored r = r" if "length (rec_name r) \<le> RECORD_NAME_SIZE" "0 \<notin> set (rec_name r)"
    using that by (auto simp: stored_def stored_name_def takeWhile_eq_all_conv intro: Record.equality)
  moreover have "drop RECORD_SIZE (SerializeRecord r buf) = drop RECORD_SIZE buf"
    unfolding SerializeRecord_layout [OF assms(2)]
    by (simp add: RECORD_SIZE_def RECORD_NAME_SIZE_def del: le_bytes.simps)
  ultimately show ?thesis using DeserializeRecord_SerializeRecord [OF assms] by blast
qed

theorem record_round_trip_witness:
  "DeserializeRecord (SerializeRecord \<lparr>rec_id = 5, rec_name = [97, 98], rec_value = -1\<rparr> (replicate 80 7)) =
    \<lparr>rec_id = 5, rec_name = [97, 98], rec_value = -1\<rparr>"
  using record_round_trip [of "\<lparr>rec_id = 5, rec_name = [97, 98], rec_value = -1\<rparr>" "replicate 80 7"]
  by (simp add: record_ok_def in_i64_def RECORD_SIZE_def RECORD_NAME_SIZE_def)

end
