(* ===== verification/Log_Record.thy ===== *)
theory Log_Record
  imports Bytes
begin

text \<open>
  Records of the write-ahead log and their binary format (\<open>src/src/storage/log_record.h\<close>).
  Images are byte strings. \<open>DeserializeLogRecord\<close> returns the record it fills in, or \<open>None\<close>
  when the source returns \<open>false\<close>.
\<close>

section \<open>Records and format\<close>

datatype LogRecordType = INSERT | UPDATE | DELETE | COMMIT

record LogRecord =
  lsn :: int
  log_type :: LogRecordType
  record_id :: int
  before_image :: bytes
  after_image :: bytes

primrec log_type_code :: "LogRecordType \<Rightarrow> int" where
  "log_type_code INSERT = 0"
| "log_type_code UPDATE = 1"
| "log_type_code DELETE = 2"
| "log_type_code COMMIT = 3"

definition log_type_of :: "int \<Rightarrow> LogRecordType" where
  "log_type_of c = (if c = 0 then INSERT else if c = 1 then UPDATE else if c = 2 then DELETE else COMMIT)"

definition SerializeLogRecord :: "LogRecord \<Rightarrow> bytes" where
  "SerializeLogRecord r =
     (let before_size = to_u32 (int (length (before_image r)));
          after_size = to_u32 (int (length (after_image r)))
      in fst (fold put_bytes
        [le_bytes 8 (lsn r), le_bytes 1 (log_type_code (log_type r)), le_bytes 8 (record_id r),
         le_bytes 4 before_size, le_bytes 4 after_size,
         take (nat before_size) (before_image r), take (nat after_size) (after_image r)]
        (replicate (8 + 1 + 8 + 4 + 4 + nat before_size + nat after_size) 0, 0)))"

definition kHeaderSize :: nat where
  "kHeaderSize = 8 + 1 + 8 + 4 * 2"

definition DeserializeLogRecord :: "bytes \<Rightarrow> LogRecord option" where
  "DeserializeLogRecord bs =
     (let size = length bs in
      if size < kHeaderSize then None
      else
        let the_lsn = le_sint (read_at bs 0 8);
            type_code = le_uint (read_at bs 8 1);
            rid = le_sint (read_at bs 9 8);
            before_size = nat (le_uint (read_at bs 17 4));
            after_size = nat (le_uint (read_at bs 21 4))
        in
        if type_code > log_type_code COMMIT \<or> before_size > size - 25 \<or> after_size > size - 25 - before_size
        then None
        else if 25 + before_size + after_size = size
        then Some \<lparr>lsn = the_lsn, log_type = log_type_of type_code, record_id = rid,
                    before_image = read_at bs 25 before_size,
                    after_image = read_at bs (25 + before_size) after_size\<rparr>
        else None)"

text \<open>Which records the format can hold: the whole record is framed by a 32-bit size.\<close>

definition log_record_ok :: "LogRecord \<Rightarrow> bool" where
  "log_record_ok r \<longleftrightarrow> in_i64 (lsn r) \<and> in_i64 (record_id r) \<and>
     25 + length (before_image r) + length (after_image r) < 2 ^ 32"

section \<open>Round trip\<close>

definition log_header :: "LogRecord \<Rightarrow> bytes" where
  "log_header r = le_bytes 8 (lsn r) @ le_bytes 1 (log_type_code (log_type r)) @ le_bytes 8 (record_id r) @
     le_bytes 4 (int (length (before_image r))) @ le_bytes 4 (int (length (after_image r)))"

lemma length_log_header [simp]: "length (log_header r) = 25"
  by (simp add: log_header_def)

lemma log_type_of_code [simp]: "log_type_of (log_type_code ty) = ty"
  by (cases ty) (auto simp: log_type_of_def)

lemma log_type_code_range: "0 \<le> log_type_code ty \<and> log_type_code ty \<le> 3"
  by (cases ty) auto

lemma log_sizes:
  assumes "log_record_ok r"
  shows "to_u32 (int (length (before_image r))) = int (length (before_image r))"
    and "to_u32 (int (length (after_image r))) = int (length (after_image r))"
  using assms by (auto simp: log_record_ok_def in_u32_def intro!: to_u32_id)

lemma SerializeLogRecord_layout:
  assumes "log_record_ok r"
  shows "SerializeLogRecord r = log_header r @ before_image r @ after_image r"
  unfolding SerializeLogRecord_def Let_def log_sizes [OF assms] fold_put_bytes_from_start
  by (simp add: log_header_def)

lemma log_header_reads:
  assumes "log_record_ok r" and "bs = log_header r @ rest"
  shows "le_sint (read_at bs 0 8) = lsn r" and "le_uint (read_at bs 8 1) = log_type_code (log_type r)"
    and "le_sint (read_at bs 9 8) = record_id r"
    and "le_uint (read_at bs 17 4) = int (length (before_image r))"
    and "le_uint (read_at bs 21 4) = int (length (after_image r))"
  using assms log_type_code_range [of "log_type r"] log_sizes [OF assms(1)]
  by (simp_all add: log_header_def read_at_skip read_at_front log_record_ok_def le_uint_byte
      del: le_bytes.simps)

lemma log_record_reads:
  assumes "log_record_ok r"
  shows "DeserializeLogRecord (log_header r @ before_image r @ after_image r) = Some r"
proof -
  let ?bs = "log_header r @ before_image r @ after_image r"
  note hd = log_header_reads [OF assms refl, of "before_image r @ after_image r"]
  have "read_at ?bs 25 (length (before_image r)) = before_image r"
    and "read_at ?bs (25 + length (before_image r)) (length (after_image r)) = after_image r"
    by (simp_all add: read_at_def)
  then show ?thesis
    unfolding DeserializeLogRecord_def Let_def hd
    using log_type_code_range [of "log_type r"] by (simp add: kHeaderSize_def)
qed

text \<open>
  C11. Round trip of the log format: every record whose images fit the 32-bit frame size is
  read back unchanged from its serialized form.
\<close>

theorem log_record_round_trip:
  assumes "log_record_ok r"
  shows "DeserializeLogRecord (SerializeLogRecord r) = Some r"
  using log_record_reads [OF assms] by (simp add: SerializeLogRecord_layout [OF assms])

theorem log_record_round_trip_witness:
  "DeserializeLogRecord (SerializeLogRecord
     \<lparr>lsn = 3, log_type = UPDATE, record_id = -7, before_image = [1, 2], after_image = [255]\<rparr>) =
   Some \<lparr>lsn = 3, log_type = UPDATE, record_id = -7, before_image = [1, 2], after_image = [255]\<rparr>"
  by (rule log_record_round_trip) (simp add: log_record_ok_def in_i64_def)

end
