(* ===== verification/Wal_Manager.thy ===== *)
theory Wal_Manager
  imports Log_Record
begin

text \<open>
  The write-ahead log (\<open>src/src/storage/wal_manager.{h,cpp}\<close>).

  The state separates the bytes of the file as other readers see it, how many of them have
  been synchronised to the device, and the bytes that are still in the stream's buffer.
  \<open>wal_stream_ok\<close>, \<open>wal_readable\<close> and \<open>wal_fsync_ok\<close> say whether writes to the stream,
  opening the file for reading and \<open>fsync\<close> succeed; they are outcomes of the environment.
  A crash keeps the synchronised bytes and an arbitrary prefix of what was written after them.
\<close>

section \<open>State and operations\<close>

record wal =
  wal_file :: bytes
  wal_synced :: nat
  wal_buffer :: bytes
  next_lsn :: int
  wal_stream_ok :: bool
  wal_readable :: bool
  wal_fsync_ok :: bool

text \<open>The loop of \<open>ReadAllRecordsUnlocked\<close> over the bytes of the file.\<close>

function read_records :: "bytes \<Rightarrow> LogRecord list" where
  "read_records bs =
     (if length bs < 4 then []
      else
        let size = nat (le_uint (take 4 bs)) in
        if size = 0 then []
        else if length (drop 4 bs) < size then []
        else (case DeserializeLogRecord (take size (drop 4 bs)) of
            None \<Rightarrow> []
          | Some r \<Rightarrow> r # read_records (drop (4 + size) bs)))"
  by pat_completeness auto
termination by (relation "measure length") auto

declare read_records.simps [simp del]

definition ReadAllRecordsUnlocked :: "(wal, LogRecord list) comp" where
  "ReadAllRecordsUnlocked =
     bindM (getM wal_readable) (\<lambda>ok.
     if \<not> ok then throwM (Runtime_Error ''failed to read WAL file'')
     else getM (\<lambda>w. read_records (wal_file w)))"

definition flush_stream :: "(wal, unit) comp" where
  "flush_stream = modifyM (\<lambda>w. if wal_stream_ok w
     then w\<lparr>wal_file := wal_file w @ wal_buffer w, wal_buffer := []\<rparr> else w)"

definition ReadAllRecords :: "(wal, LogRecord list) comp" where
  "ReadAllRecords = thenM flush_stream ReadAllRecordsUnlocked"

text \<open>
  \<open>existing\<close> is the file that is there, if any; \<open>can_create\<close> and \<open>can_open\<close> are the outcomes
  of creating a missing file and of opening the stream.
\<close>

definition WALManager :: "bytes option \<Rightarrow> bool \<Rightarrow> bool \<Rightarrow> wal res" where
  "WALManager existing can_create can_open =
     (if existing = None \<and> \<not> can_create then Inl (Runtime_Error ''failed to create WAL file'')
      else if \<not> can_open then Inl (Runtime_Error ''failed to open WAL file'')
      else
        let bs = (case existing of None \<Rightarrow> [] | Some bs \<Rightarrow> bs);
            records = read_records bs;
            w = \<lparr>wal_file = bs, wal_synced = length bs, wal_buffer = [], next_lsn = 0,
                  wal_stream_ok = True, wal_readable = True, wal_fsync_ok = True\<rparr>
        in if records = [] then Inr w
           else if lsn (last records) = 2 ^ 63 - 1 then Inl Undefined
           else Inr (w\<lparr>next_lsn := lsn (last records) + 1\<rparr>))"

definition Append :: "LogRecordType \<Rightarrow> int \<Rightarrow> bytes \<Rightarrow> bytes \<Rightarrow> (wal, int) comp" where
  "Append ty rid before after =
     bindM (getM next_lsn) (\<lambda>n.
     if n = 2 ^ 63 - 1 then throwM Undefined
     else
       thenM (modifyM (\<lambda>w. w\<lparr>next_lsn := n + 1\<rparr>)) (
       let r = \<lparr>lsn = n, log_type = ty, record_id = rid, before_image = before, after_image = after\<rparr>;
           bs = SerializeLogRecord r;
           size = to_u32 (int (length bs))
       in
       bindM (getM wal_stream_ok) (\<lambda>ok.
       if \<not> ok then throwM (Runtime_Error ''failed to append WAL record'')
       else
         thenM (modifyM (\<lambda>w. w\<lparr>wal_buffer := wal_buffer w @ le_bytes 4 size @ bs\<rparr>)) (
         returnM n))))"

definition AppendInsert :: "int \<Rightarrow> bytes \<Rightarrow> (wal, int) comp" where
  "AppendInsert rid after = Append INSERT rid [] after"

definition AppendUpdate :: "int \<Rightarrow> bytes \<Rightarrow> bytes \<Rightarrow> (wal, int) comp" where
  "AppendUpdate rid before after = Append UPDATE rid before after"

definition AppendDelete :: "int \<Rightarrow> bytes \<Rightarrow> (wal, int) comp" where
  "AppendDelete rid before = Append DELETE rid before []"

definition AppendCommit :: "(wal, unit) comp" where
  "AppendCommit = thenM (Append COMMIT (-1) [] []) (returnM ())"

definition Flush :: "(wal, unit) comp" where
  "Flush =
     thenM flush_stream (
     bindM (getM wal_stream_ok) (\<lambda>ok.
     if \<not> ok then throwM (Runtime_Error ''failed to flush WAL file'')
     else
       bindM (getM wal_fsync_ok) (\<lambda>ok.
       if \<not> ok then throwM (Runtime_Error ''failed to fsync WAL file'')
       else modifyM (\<lambda>w. w\<lparr>wal_synced := length (wal_file w)\<rparr>))))"

section \<open>What the log holds\<close>

definition log_frame :: "LogRecord \<Rightarrow> bytes" where
  "log_frame r = le_bytes 4 (int (length (SerializeLogRecord r))) @ SerializeLogRecord r"

text \<open>
  The log holds the records \<open>rs\<close>: they are in the file and the buffer, numbered upwards, and
  the next number is above them.
\<close>

definition wal_holds :: "wal \<Rightarrow> LogRecord list \<Rightarrow> bool" where
  "wal_holds w rs \<longleftrightarrow> wal_file w @ wal_buffer w = concat (map log_frame rs) \<and>
     list_all log_record_ok rs \<and> sorted_wrt (<) (map lsn rs) \<and> (\<forall>r \<in> set rs. lsn r < next_lsn w) \<and>
     0 \<le> next_lsn w \<and> next_lsn w < 2 ^ 63 \<and> wal_synced w \<le> length (wal_file w) \<and>
     wal_stream_ok w \<and> wal_readable w \<and> wal_fsync_ok w"

text \<open>The file after a crash: \<open>n\<close> bytes of what was written have reached the device.\<close>

definition crash_file :: "wal \<Rightarrow> nat \<Rightarrow> bytes" where
  "crash_file w n = take (wal_synced w + n) (wal_file w @ wal_buffer w)"

text \<open>How many whole frames are among the first \<open>n\<close> bytes.\<close>

primrec whole_frames :: "nat \<Rightarrow> LogRecord list \<Rightarrow> nat" where
  "whole_frames n [] = 0"
| "whole_frames n (r # rs) =
     (if n < length (log_frame r) then 0 else Suc (whole_frames (n - length (log_frame r)) rs))"

text \<open>A log with one synchronised record and one that is still in the buffer.\<close>

definition demo_insert :: LogRecord where
  "demo_insert = \<lparr>lsn = 0, log_type = INSERT, record_id = 7, before_image = [], after_image = [1, 2, 3]\<rparr>"

definition demo_commit :: LogRecord where
  "demo_commit = \<lparr>lsn = 1, log_type = COMMIT, record_id = -1, before_image = [], after_image = []\<rparr>"

definition demo_wal :: wal where
  "demo_wal = \<lparr>wal_file = log_frame demo_insert, wal_synced = length (log_frame demo_insert),
     wal_buffer = log_frame demo_commit, next_lsn = 2, wal_stream_ok = True, wal_readable = True,
     wal_fsync_ok = True\<rparr>"


section \<open>Reading\<close>

lemma SerializeLogRecord_length:
  "log_record_ok r \<Longrightarrow> length (SerializeLogRecord r) = 25 + length (before_image r) + length (after_image r)"
  by (simp add: SerializeLogRecord_layout)

lemma log_frame_size:
  assumes "log_record_ok r"
  shows "nat (le_uint (take 4 (log_frame r @ rest))) = length (SerializeLogRecord r)"
    and "nat (le_uint (take 4 (log_frame r))) = length (SerializeLogRecord r)"
proof -
  have "int (length (SerializeLogRecord r)) < 2 ^ 32"
    using assms SerializeLogRecord_length [OF assms] by (simp add: log_record_ok_def)
  then show "nat (le_uint (take 4 (log_frame r @ rest))) = length (SerializeLogRecord r)"
    and "nat (le_uint (take 4 (log_frame r))) = length (SerializeLogRecord r)"
    by (simp_all add: log_frame_def to_u32_def del: le_bytes.simps)
qed

lemma read_records_frame:
  assumes "log_record_ok r"
  shows "read_records (log_frame r @ rest) = r # read_records rest"
proof -
  have "DeserializeLogRecord (SerializeLogRecord r) = Some r"
    using log_record_reads [OF assms] by (simp add: SerializeLogRecord_layout [OF assms])
  then show ?thesis
    using log_frame_size(1) [OF assms, of rest] SerializeLogRecord_length [OF assms]
    by (subst read_records.simps) (simp add: log_frame_def Let_def)
qed

lemma read_records_frames:
  "list_all log_record_ok rs \<Longrightarrow> read_records (concat (map log_frame rs) @ rest) = rs @ read_records rest"
  by (induction rs) (simp_all add: read_records_frame)

text \<open>A torn frame at the end is not read.\<close>

lemma read_records_torn:
  assumes "log_record_ok r" and "n < length (log_frame r)"
  shows "read_records (take n (log_frame r)) = []"
proof (cases "n < 4")
  case True
  then show ?thesis by (subst read_records.simps) simp
next
  case False
  have "take 4 (take n (log_frame r)) = take 4 (log_frame r)" using False by (simp add: take_take min_def)
  then show ?thesis
    using False assms(2) log_frame_size(2) [OF assms(1)]
    by (subst read_records.simps) (auto simp: log_frame_def Let_def min_def)
qed

lemma read_records_take:
  "list_all log_record_ok rs \<Longrightarrow>
    read_records (take n (concat (map log_frame rs))) = take (whole_frames n rs) rs"
proof (induction rs arbitrary: n)
  case Nil
  then show ?case by (simp add: read_records.simps)
next
  case (Cons r rs)
  then show ?case by (simp add: read_records_torn read_records_frame)
qed

lemma whole_frames_prefix:
  "length (concat (map log_frame rs)) \<le> n \<Longrightarrow> length rs \<le> whole_frames n (rs @ more_rs)"
  by (induction rs arbitrary: n) auto

lemma read_records_all:
  "list_all log_record_ok rs \<Longrightarrow> read_records (concat (map log_frame rs)) = rs"
  using read_records_frames [of rs "[]"] by (simp add: read_records.simps)

section \<open>Appending\<close>

lemma Append_run:
  fixes ty :: LogRecordType
  assumes "wal_holds w rs" and "next_lsn w < 2 ^ 63 - 1" and "in_i64 rid"
    and "25 + length before + length after < 2 ^ 32"
  defines "r \<equiv> \<lparr>lsn = next_lsn w, log_type = ty, record_id = rid, before_image = before, after_image = after\<rparr>"
  shows "\<exists>w'. Append ty rid before after w = (Inr (next_lsn w), w') \<and> wal_holds w' (rs @ [r]) \<and>
    next_lsn w' = next_lsn w + 1 \<and> wal_synced w' = wal_synced w \<and> wal_file w' = wal_file w"
proof -
  have ok: "log_record_ok r" using assms by (auto simp: log_record_ok_def wal_holds_def in_i64_def r_def)
  have "to_u32 (int (length (SerializeLogRecord r))) = int (length (SerializeLogRecord r))"
    using ok SerializeLogRecord_length [OF ok] by (intro to_u32_id) (simp add: in_u32_def log_record_ok_def)
  then have "Append ty rid before after w = (Inr (next_lsn w),
      w\<lparr>next_lsn := next_lsn w + 1, wal_buffer := wal_buffer w @ log_frame r\<rparr>)"
    using assms(1,2) by (simp add: Append_def run log_frame_def r_def Let_def wal_holds_def)
  moreover have "wal_holds (w\<lparr>next_lsn := next_lsn w + 1, wal_buffer := wal_buffer w @ log_frame r\<rparr>) (rs @ [r])"
    using assms(1,2) ok by (auto simp: wal_holds_def sorted_wrt_append r_def simp flip: append_assoc)
  ultimately show ?thesis by simp
qed

lemma wal_holds_synced:
  assumes "wal_holds w rs"
  shows "wal_synced w \<le> length (concat (map log_frame rs))"
proof -
  have "wal_file w @ wal_buffer w = concat (map log_frame rs)" "wal_synced w \<le> length (wal_file w)"
    using assms by (simp_all add: wal_holds_def)
  then show ?thesis by (metis length_append trans_le_add1)
qed

lemma flush_stream_run:
  assumes "wal_holds w rs"
  shows "flush_stream w = (Inr (), w\<lparr>wal_file := wal_file w @ wal_buffer w, wal_buffer := []\<rparr>)"
    and "wal_holds (w\<lparr>wal_file := wal_file w @ wal_buffer w, wal_buffer := []\<rparr>) rs"
  using assms wal_holds_synced [OF assms] by (simp_all add: flush_stream_def run wal_holds_def)

lemma ReadAllRecords_run:
  assumes "wal_holds w rs"
  shows "\<exists>w'. ReadAllRecords w = (Inr rs, w') \<and> wal_holds w' rs"
proof -
  let ?w = "w\<lparr>wal_file := wal_file w @ wal_buffer w, wal_buffer := []\<rparr>"
  have "read_records (wal_file ?w) = rs"
    using assms read_records_all by (simp add: wal_holds_def)
  then show ?thesis
    using flush_stream_run [OF assms] assms wal_holds_synced [OF assms]
    by (simp add: ReadAllRecords_def ReadAllRecordsUnlocked_def run wal_holds_def)
qed

lemma Flush_run:
  assumes "wal_holds w rs"
  shows "\<exists>w'. Flush w = (Inr (), w') \<and> wal_holds w' rs \<and> wal_buffer w' = [] \<and> wal_synced w' = length (wal_file w')"
  using flush_stream_run [OF assms] assms wal_holds_synced [OF assms]
  by (simp add: Flush_def run wal_holds_def)

text \<open>
  C12. A record appended to the log is read back: \<open>Append\<close> returns the next sequence number,
  and \<open>ReadAllRecords\<close> then returns the records of before followed by the new one. Nothing
  else of the log changes.
\<close>

theorem wal_append_read:
  assumes "wal_holds w rs" and "next_lsn w < 2 ^ 63 - 1" and "in_i64 rid"
    and "25 + length before + length after < 2 ^ 32"
  shows "\<exists>w' w''. Append ty rid before after w = (Inr (next_lsn w), w') \<and>
    ReadAllRecords w' = (Inr (rs @ [\<lparr>lsn = next_lsn w, log_type = ty, record_id = rid,
      before_image = before, after_image = after\<rparr>]), w'') \<and> next_lsn w'' = next_lsn w + 1"
proof -
  obtain w' where 1: "Append ty rid before after w = (Inr (next_lsn w), w')"
    "wal_holds w' (rs @ [\<lparr>lsn = next_lsn w, log_type = ty, record_id = rid,
      before_image = before, after_image = after\<rparr>])" "next_lsn w' = next_lsn w + 1"
    using Append_run [OF assms] by blast
  moreover from ReadAllRecords_run [OF 1(2)] obtain w'' where
    "ReadAllRecords w' = (Inr (rs @ [\<lparr>lsn = next_lsn w, log_type = ty, record_id = rid,
      before_image = before, after_image = after\<rparr>]), w'')" by blast
  moreover have "snd (ReadAllRecords w') = w'\<lparr>wal_file := wal_file w' @ wal_buffer w', wal_buffer := []\<rparr>"
    using flush_stream_run(1) [OF 1(2)] 1(2)
    by (simp add: ReadAllRecords_def ReadAllRecordsUnlocked_def run wal_holds_def)
  ultimately show ?thesis by auto
qed

lemma demo_wal_holds: "wal_holds demo_wal [demo_insert, demo_commit]"
  by (simp add: wal_holds_def demo_wal_def log_record_ok_def in_i64_def demo_insert_def demo_commit_def)

theorem wal_append_read_witness:
  "\<exists>w' w''. Append DELETE 7 [1, 2, 3] [] demo_wal = (Inr 2, w') \<and>
    ReadAllRecords w' = (Inr [demo_insert, demo_commit, \<lparr>lsn = 2, log_type = DELETE, record_id = 7,
      before_image = [1, 2, 3], after_image = []\<rparr>], w'') \<and> next_lsn w'' = 3"
  using wal_append_read [OF demo_wal_holds, of 7 "[1, 2, 3]" "[]" DELETE]
  by (simp add: demo_wal_def in_i64_def)

section \<open>Crashes and reopening\<close>

lemma crash_prefix:
  assumes "wal_holds w rs"
  shows "read_records (crash_file w n) = take (whole_frames (wal_synced w + n) rs) rs"
  using assms read_records_take [of rs "wal_synced w + n"] by (simp add: crash_file_def wal_holds_def)

lemma WALManager_opens:
  assumes "read_records bs \<noteq> [] \<Longrightarrow> lsn (last (read_records bs)) \<noteq> 2 ^ 63 - 1"
  shows "\<exists>w'. WALManager (Some bs) True True = Inr w' \<and> fst (ReadAllRecords w') = Inr (read_records bs) \<and>
    next_lsn w' = (if read_records bs = [] then 0 else lsn (last (read_records bs)) + 1)"
  using assms
  by (cases "read_records bs = []")
    (simp_all add: WALManager_def Let_def ReadAllRecords_def ReadAllRecordsUnlocked_def flush_stream_def run)

lemma last_lsn_max:
  assumes "sorted_wrt (<) (map lsn rs)" and "r \<in> set rs"
  shows "lsn r \<le> lsn (last rs)"
proof (cases rs rule: rev_cases)
  case (snoc ys y)
  then show ?thesis using assms by (auto simp: sorted_wrt_append)
qed (use assms in simp)

text \<open>
  C13. After a crash, the log that is reopened from the surviving file holds a prefix of the
  records appended before it, in order and unchanged; the prefix contains every record whose
  bytes had been synchronised, and a torn record at the end is dropped. The sequence numbers
  go on above those of the surviving records.
\<close>

theorem wal_crash_recovery:
  assumes "wal_holds w (synced @ rest)" and "length (concat (map log_frame synced)) \<le> wal_synced w"
  shows "\<exists>w' kept. WALManager (Some (crash_file w n)) True True = Inr w' \<and>
    fst (ReadAllRecords w') = Inr (synced @ kept) \<and> (\<exists>lost. rest = kept @ lost) \<and>
    (\<forall>r \<in> set (synced @ kept). lsn r < next_lsn w')"
proof -
  let ?rs = "synced @ rest" let ?m = "whole_frames (wal_synced w + n) (synced @ rest)"
  let ?read = "read_records (crash_file w n)"
  have m: "length synced \<le> ?m" using whole_frames_prefix assms(2) by (simp add: trans_le_add1)
  have rd: "?read = synced @ take (?m - length synced) rest"
    using crash_prefix [OF assms(1)] m by simp
  have sub: "set ?read \<subseteq> set ?rs" using rd set_take_subset by fastforce
  have bound: "lsn r < 2 ^ 63 - 1" if "r \<in> set ?read" for r
    using that sub assms(1) by (force simp: wal_holds_def)
  have "sorted_wrt (<) (map lsn ?read)"
    using assms(1) sorted_wrt_take [of "(<)" "map lsn ?rs" ?m]
    unfolding crash_prefix [OF assms(1)] wal_holds_def take_map by blast
  then have mx: "lsn r \<le> lsn (last ?read)" if "r \<in> set ?read" for r
    using that by (rule last_lsn_max)
  have "lsn (last ?read) \<noteq> 2 ^ 63 - 1" if "?read \<noteq> []"
    using bound [OF last_in_set [OF that]] by simp
  from WALManager_opens [OF this] obtain w' where
    w': "WALManager (Some (crash_file w n)) True True = Inr w'" "fst (ReadAllRecords w') = Inr ?read"
    "next_lsn w' = (if ?read = [] then 0 else lsn (last ?read) + 1)" by blast
  have "\<forall>r \<in> set ?read. lsn r < next_lsn w'" using w'(3) mx by fastforce
  moreover have "rest = take (?m - length synced) rest @ drop (?m - length synced) rest" by simp
  ultimately show ?thesis using w'(1,2) rd by metis
qed

theorem wal_crash_recovery_witness:
  "\<exists>w' kept. WALManager (Some (crash_file demo_wal 10)) True True = Inr w' \<and>
    fst (ReadAllRecords w') = Inr ([demo_insert] @ kept) \<and> (\<exists>lost. [demo_commit] = kept @ lost) \<and>
    (\<forall>r \<in> set ([demo_insert] @ kept). lsn r < next_lsn w')"
  by (rule wal_crash_recovery) (use demo_wal_holds in \<open>simp_all add: demo_wal_def\<close>)


end
