(* ===== verification/Disk_Manager.thy ===== *)
theory Disk_Manager
  imports Bytes
begin

text \<open>
  The page type (\<open>src/src/storage/page.h\<close>) and the disk manager
  (\<open>src/src/storage/disk_manager.{h,cpp}\<close>): a file of fixed-size pages, an allocation
  counter and a free list.

  The file is its sequence of bytes. Whether the host's file stream works is the flag
  \<open>stream_ok\<close>: when it is false the calls throw what the source throws. A pointer
  argument that the source compares with \<open>nullptr\<close> is an \<open>option\<close>.
  \<open>disk_page\<close> is the abstract contents of a page, \<open>live\<close> the set of the page ids handed
  out and not given back. The contract the buffer pool relies on is the locale
  \<open>page_device\<close>.
\<close>

section \<open>Pages\<close>

definition PAGE_SIZE :: nat where
  "PAGE_SIZE = 4096"

definition INVALID_PAGE_ID :: int where
  "INVALID_PAGE_ID = -1"

record page =
  pg_data :: bytes
  pg_id :: int

definition ResetMemory :: "page \<Rightarrow> page" where
  "ResetMemory p = p\<lparr>pg_data := replicate PAGE_SIZE 0\<rparr>"

definition Page :: page where
  "Page = ResetMemory \<lparr>pg_data = [], pg_id = INVALID_PAGE_ID\<rparr>"

section \<open>The disk manager\<close>

record disk =
  file_bytes :: bytes
  next_page_id :: int
  free_list :: "int list"
  num_flushes :: nat
  stream_ok :: bool

text \<open>
  \<open>OpenFile\<close>: \<open>existing\<close> is the file under the given name, if there is one that can be
  opened; the two flags say whether creating it and opening it afterwards succeed.
\<close>

definition OpenFile :: "bytes option \<Rightarrow> bool \<Rightarrow> bool \<Rightarrow> bytes res" where
  "OpenFile existing create_ok reopen_ok =
     (case existing of
        Some f \<Rightarrow> Inr f
      | None \<Rightarrow>
          if \<not> create_ok then Inl (Runtime_Error ''failed to create backing file'')
          else if \<not> reopen_ok then Inl (Runtime_Error ''failed to open backing file'')
          else Inr [])"

definition DiskManager :: "bytes option \<Rightarrow> bool \<Rightarrow> bool \<Rightarrow> disk res" where
  "DiskManager existing create_ok reopen_ok =
     (case OpenFile existing create_ok reopen_ok of
        Inl e \<Rightarrow> Inl e
      | Inr f \<Rightarrow> Inr \<lparr>file_bytes = f, next_page_id = to_i32 (int (length f div PAGE_SIZE)),
                      free_list = [], num_flushes = 0, stream_ok = True\<rparr>)"

definition GetFileSizeUnlocked :: "(disk, nat) comp" where
  "GetFileSizeUnlocked =
     bindM (getM stream_ok) (\<lambda>ok.
     if \<not> ok then throwM (Runtime_Error ''failed to determine backing file size'')
     else getM (\<lambda>d. length (file_bytes d)))"

definition ReadPage :: "int \<Rightarrow> bytes option \<Rightarrow> (disk, bytes) comp" where
  "ReadPage page_id page_data =
     (if page_id < 0 \<or> page_data = None
      then throwM (Runtime_Error ''invalid page read request'')
      else
        let offset = nat page_id * PAGE_SIZE in
        bindM GetFileSizeUnlocked (\<lambda>file_size.
        if offset \<ge> file_size then returnM (replicate PAGE_SIZE 0)
        else
          bindM (getM (\<lambda>d. take PAGE_SIZE (drop offset (file_bytes d)))) (\<lambda>got.
          bindM (getM stream_ok) (\<lambda>ok.
          if \<not> ok then throwM (Runtime_Error ''failed to read page'')
          else returnM (got @ replicate (PAGE_SIZE - length got) 0)))))"

text \<open>Writing beyond the end of the file fills the gap with zeros.\<close>

definition write_file :: "bytes \<Rightarrow> nat \<Rightarrow> bytes \<Rightarrow> bytes" where
  "write_file f offset bs = memcpy_at (f @ replicate (offset - length f) 0) offset bs"

definition WritePage :: "int \<Rightarrow> bytes option \<Rightarrow> (disk, unit) comp" where
  "WritePage page_id page_data =
     (if page_id < 0 \<or> page_data = None
      then throwM (Runtime_Error ''invalid page write request'')
      else
        let offset = nat page_id * PAGE_SIZE in
        bindM (getM stream_ok) (\<lambda>ok.
        if \<not> ok then throwM (Runtime_Error ''failed to write page'')
        else
          modifyM (\<lambda>d. d\<lparr>file_bytes := write_file (file_bytes d) offset (take PAGE_SIZE (the page_data)),
                        num_flushes := num_flushes d + 1\<rparr>)))"

definition AllocatePage :: "(disk, int) comp" where
  "AllocatePage =
     bindM (getM free_list) (\<lambda>fl.
     if fl \<noteq> [] then
       thenM (modifyM (\<lambda>d. d\<lparr>free_list := butlast fl\<rparr>)) (returnM (last fl))
     else
       bindM (getM next_page_id) (\<lambda>n.
       if n = 2 ^ 31 - 1 then throwM (Runtime_Error ''page id limit reached'')
       else thenM (modifyM (\<lambda>d. d\<lparr>next_page_id := n + 1\<rparr>)) (returnM n)))"

definition DeallocatePage :: "int \<Rightarrow> (disk, unit) comp" where
  "DeallocatePage page_id =
     (if page_id \<ge> 0 then modifyM (\<lambda>d. d\<lparr>free_list := free_list d @ [page_id]\<rparr>)
      else returnM ())"

definition GetNumFlushes :: "(disk, nat) comp" where
  "GetNumFlushes = getM num_flushes"

definition GetFileSize :: "(disk, nat) comp" where
  "GetFileSize = GetFileSizeUnlocked"

section \<open>What the disk stores\<close>

text \<open>The \<open>n\<close> bytes from offset \<open>a\<close>, padded with zeros past the end.\<close>

definition padded_slice :: "nat \<Rightarrow> nat \<Rightarrow> bytes \<Rightarrow> bytes" where
  "padded_slice n a f = (let got = take n (drop a f) in got @ replicate (n - length got) 0)"

definition disk_page :: "disk \<Rightarrow> int \<Rightarrow> bytes" where
  "disk_page d p = padded_slice PAGE_SIZE (nat p * PAGE_SIZE) (file_bytes d)"

definition live :: "disk \<Rightarrow> int set" where
  "live d = {0..<next_page_id d} - set (free_list d)"

text \<open>How many more pages can be allocated.\<close>

definition room :: "disk \<Rightarrow> nat" where
  "room d = length (free_list d) + nat (2 ^ 31 - 1 - next_page_id d)"

definition wf_disk :: "disk \<Rightarrow> bool" where
  "wf_disk d \<longleftrightarrow> 0 \<le> next_page_id d \<and> next_page_id d < 2 ^ 31 \<and> distinct (free_list d) \<and>
     set (free_list d) \<subseteq> {0..<next_page_id d} \<and> stream_ok d"

text \<open>The disk manager over a new file.\<close>

definition empty_disk :: disk where
  "empty_disk = \<lparr>file_bytes = [], next_page_id = 0, free_list = [], num_flushes = 0, stream_ok = True\<rparr>"

section \<open>The contract of a page device\<close>

text \<open>
  What the buffer pool relies on: a read returns the contents, a write replaces the
  contents of its page and of no other, allocation returns a page that is not in use.
\<close>

locale page_device =
  fixes rd :: "int \<Rightarrow> bytes option \<Rightarrow> ('d, bytes) comp"
    and wr :: "int \<Rightarrow> bytes option \<Rightarrow> ('d, unit) comp"
    and alloc :: "('d, int) comp"
    and dealloc :: "int \<Rightarrow> ('d, unit) comp"
    and content :: "'d \<Rightarrow> int \<Rightarrow> bytes"
    and used :: "'d \<Rightarrow> int set"
    and space :: "'d \<Rightarrow> nat"
    and ok :: "'d \<Rightarrow> bool"
  assumes content_length: "length (content d p) = PAGE_SIZE"
    and used_nonneg: "ok d \<Longrightarrow> p \<in> used d \<Longrightarrow> 0 \<le> p"
    and rd_content: "ok d \<Longrightarrow> 0 \<le> p \<Longrightarrow> rd p (Some b) d = (Inr (content d p), d)"
    and wr_content: "ok d \<Longrightarrow> 0 \<le> p \<Longrightarrow> length b = PAGE_SIZE \<Longrightarrow>
      \<exists>d'. wr p (Some b) d = (Inr (), d') \<and> ok d' \<and> used d' = used d \<and> space d' = space d \<and>
           (\<forall>q\<ge>0. content d' q = (if q = p then b else content d q))"
    and alloc_fresh: "ok d \<Longrightarrow> alloc d = (Inr p, d') \<Longrightarrow>
      p \<notin> used d \<and> used d' = insert p (used d) \<and> ok d' \<and> content d' = content d \<and> 0 \<le> p \<and>
      Suc (space d') = space d"
    and alloc_succeeds: "ok d \<Longrightarrow> 0 < space d \<Longrightarrow> \<exists>p d'. alloc d = (Inr p, d')"
    and alloc_fails: "ok d \<Longrightarrow> alloc d = (Inl e, d') \<Longrightarrow> d' = d"
    and dealloc_used: "ok d \<Longrightarrow> p \<in> used d \<Longrightarrow>
      \<exists>d'. dealloc p d = (Inr (), d') \<and> ok d' \<and> used d' = used d - {p} \<and> content d' = content d \<and>
           space d' = Suc (space d)"
begin

text \<open>A page that was written reads back, and another page reads as before.\<close>

lemma rd_after_wr:
  assumes "ok d" and "0 \<le> p" and "0 \<le> q" and "length b = PAGE_SIZE"
  shows "fst (thenM (wr p (Some b)) (rd q (Some b')) d) =
           Inr (if q = p then b else content d q)"
proof -
  from wr_content [OF assms(1,2,4)] obtain d' where
    w: "wr p (Some b) d = (Inr (), d')" and "ok d'"
    and c: "\<forall>q\<ge>0. content d' q = (if q = p then b else content d q)"
    by blast
  with assms(3) show ?thesis
    by (simp add: run w rd_content)
qed

text \<open>Two allocations in a row hand out different pages.\<close>

lemma alloc_twice_distinct:
  assumes "ok d" and "alloc d = (Inr p, d')" and "alloc d' = (Inr q, d'')"
  shows "p \<noteq> q"
  using alloc_fresh [OF assms(1,2)] alloc_fresh [OF _ assms(3)] by blast

end

section \<open>The disk manager is a page device\<close>

named_theorems disk_defs

lemmas disk_ops [disk_defs] =
  ReadPage_def WritePage_def AllocatePage_def DeallocatePage_def GetFileSizeUnlocked_def

lemma PAGE_SIZE_pos [simp]: "0 < PAGE_SIZE"
  by (simp add: PAGE_SIZE_def)

lemma length_disk_page [simp]: "length (disk_page d p) = PAGE_SIZE"
  by (simp add: disk_page_def padded_slice_def Let_def)

lemma wf_disk_stream [simp]: "wf_disk d \<Longrightarrow> stream_ok d"
  by (simp add: wf_disk_def)

lemma ReadPage_disk_page:
  assumes "stream_ok d" and "0 \<le> p"
  shows "ReadPage p (Some b) d = (Inr (disk_page d p), d)"
  using assms by (auto simp: disk_defs run disk_page_def padded_slice_def Let_def)

text \<open>
  The bytes a page occupies, padded with zeros: byte by byte, what the file has there. A
  write at another page changes none of them.
\<close>

lemma length_padded_slice [simp]: "length (padded_slice n a f) = n"
  by (simp add: padded_slice_def Let_def)

lemma nth_padded_slice:
  "i < n \<Longrightarrow> padded_slice n a f ! i = (if a + i < length f then f ! (a + i) else 0)"
  by (auto simp: padded_slice_def Let_def nth_append)

lemma length_write_file:
  "length (write_file f a b) = max (length f) (a + length b)"
  by (simp add: write_file_def memcpy_at_def)

lemma nth_write_file_outside:
  assumes "k < a \<or> a + length b \<le> k" and "k < length (write_file f a b)"
  shows "write_file f a b ! k = (if k < length f then f ! k else 0)"
  using assms unfolding length_write_file by (auto simp: write_file_def memcpy_at_def nth_append)

lemma page_slice_write:
  assumes "length b = n" and "i \<noteq> (j::nat)"
  shows "padded_slice n (j * n) (write_file f (i * n) b) = padded_slice n (j * n) f"
proof (rule nth_equalityI)
  fix k
  assume "k < length (padded_slice n (j * n) (write_file f (i * n) b))"
  then have k: "k < n" by simp
  have "j * n + n \<le> i * n \<or> i * n + n \<le> j * n"
    using assms(2) mult_le_mono1 [of "Suc i" j n] mult_le_mono1 [of "Suc j" i n] by force
  with k assms(1) have "j * n + k < i * n \<or> i * n + length b \<le> j * n + k" by auto
  with k show "padded_slice n (j * n) (write_file f (i * n) b) ! k = padded_slice n (j * n) f ! k"
    by (auto simp: nth_padded_slice nth_write_file_outside length_write_file)
qed simp

lemma page_slice_written:
  assumes "length b = n"
  shows "padded_slice n (i * n) (write_file f (i * n) b) = b"
  using assms by (simp add: padded_slice_def write_file_def memcpy_at_def)

lemma disk_page_write:
  assumes "0 \<le> p" and "0 \<le> q" and "length b = PAGE_SIZE"
  shows "disk_page (d\<lparr>file_bytes := write_file (file_bytes d) (nat p * PAGE_SIZE) b, num_flushes := k\<rparr>) q =
         (if q = p then b else disk_page d q)"
proof (cases "q = p")
  case True
  with assms show ?thesis
    by (simp add: disk_page_def page_slice_written)
next
  case False
  with assms(1,2) have "nat p \<noteq> nat q" by simp
  with False page_slice_write [OF assms(3) this, of "file_bytes d"] show ?thesis
    by (simp add: disk_page_def)
qed

lemma WritePage_run:
  assumes "stream_ok d" and "0 \<le> p" and "length b = PAGE_SIZE"
  shows "WritePage p (Some b) d =
    (Inr (), d\<lparr>file_bytes := write_file (file_bytes d) (nat p * PAGE_SIZE) b, num_flushes := num_flushes d + 1\<rparr>)"
  using assms by (simp add: disk_defs run)

lemma AllocatePage_cases:
  assumes "wf_disk d"
  shows "AllocatePage d =
    (if free_list d \<noteq> [] then (Inr (last (free_list d)), d\<lparr>free_list := butlast (free_list d)\<rparr>)
     else if next_page_id d = 2 ^ 31 - 1 then (Inl (Runtime_Error ''page id limit reached''), d)
     else (Inr (next_page_id d), d\<lparr>next_page_id := next_page_id d + 1\<rparr>))"
  by (simp add: disk_defs run)

lemma last_notin_butlast: "distinct xs \<Longrightarrow> xs \<noteq> [] \<Longrightarrow> last xs \<notin> set (butlast xs)"
  by (metis append_butlast_last_id distinct_append disjoint_iff last_in_set list.set_intros(1))

lemma set_butlast_last: "xs \<noteq> [] \<Longrightarrow> set xs = insert (last xs) (set (butlast xs))"
  by (metis append_butlast_last_id list.simps(15) rotate1.simps(2) set_rotate1)

lemma AllocatePage_fresh:
  assumes wf: "wf_disk d" and al: "AllocatePage d = (Inr p, d')"
  shows "p \<notin> live d \<and> live d' = insert p (live d) \<and> wf_disk d' \<and> disk_page d' = disk_page d \<and> 0 \<le> p \<and>
    Suc (room d') = room d"
proof (cases "free_list d = []")
  case True
  with al wf have "p = next_page_id d" and "d' = d\<lparr>next_page_id := next_page_id d + 1\<rparr>"
    and "next_page_id d \<noteq> 2 ^ 31 - 1"
    by (auto simp: AllocatePage_cases split: if_splits)
  with wf True show ?thesis
    by (auto simp: live_def wf_disk_def disk_page_def room_def)
next
  case False
  with al wf have p: "p = last (free_list d)" and d': "d' = d\<lparr>free_list := butlast (free_list d)\<rparr>"
    by (auto simp: AllocatePage_cases)
  have "p \<in> set (free_list d)" using False p by simp
  moreover have "p \<notin> set (butlast (free_list d))"
    using wf False p by (simp add: wf_disk_def last_notin_butlast)
  moreover have "set (free_list d) = insert p (set (butlast (free_list d)))"
    using False p by (simp add: set_butlast_last)
  ultimately show ?thesis
    using wf d' False by (auto simp: live_def wf_disk_def disk_page_def distinct_butlast room_def)
qed

interpretation disk: page_device ReadPage WritePage AllocatePage DeallocatePage disk_page live room wf_disk
proof
  show "length (disk_page d p) = PAGE_SIZE" for d p by simp
  show "wf_disk d \<Longrightarrow> p \<in> live d \<Longrightarrow> 0 \<le> p" for d p by (simp add: live_def)
  show "wf_disk d \<Longrightarrow> 0 \<le> p \<Longrightarrow> ReadPage p (Some b) d = (Inr (disk_page d p), d)" for d p b
    by (simp add: ReadPage_disk_page)
  show "\<exists>d'. WritePage p (Some b) d = (Inr (), d') \<and> wf_disk d' \<and> live d' = live d \<and> room d' = room d \<and>
          (\<forall>q\<ge>0. disk_page d' q = (if q = p then b else disk_page d q))"
    if "wf_disk d" "0 \<le> p" "length b = PAGE_SIZE" for d p b
    using that by (simp add: WritePage_run disk_page_write wf_disk_def live_def room_def)
  show "wf_disk d \<Longrightarrow> AllocatePage d = (Inr p, d') \<Longrightarrow>
      p \<notin> live d \<and> live d' = insert p (live d) \<and> wf_disk d' \<and> disk_page d' = disk_page d \<and> 0 \<le> p \<and>
      Suc (room d') = room d"
    for d p d' by (rule AllocatePage_fresh)
  show "\<exists>p d'. AllocatePage d = (Inr p, d')" if "wf_disk d" "0 < room d" for d
    using that by (auto simp: AllocatePage_cases room_def)
  show "wf_disk d \<Longrightarrow> AllocatePage d = (Inl e, d') \<Longrightarrow> d' = d" for d e d'
    by (auto simp: AllocatePage_cases split: if_splits)
  show "\<exists>d'. DeallocatePage p d = (Inr (), d') \<and> wf_disk d' \<and> live d' = live d - {p} \<and>
          disk_page d' = disk_page d \<and> room d' = Suc (room d)"
    if "wf_disk d" "p \<in> live d" for d p
    using that by (auto simp: disk_defs run wf_disk_def live_def disk_page_def room_def)
qed

section \<open>Properties\<close>

text \<open>
  C1. Page storage: after \<open>WritePage\<close> of a full page, \<open>ReadPage\<close> returns the bytes
  written for that page, and for every other page what it returned before, whether or not
  the pages lie beyond the end of the file.
\<close>

theorem disk_read_after_write:
  assumes "wf_disk d" and "0 \<le> p" and "0 \<le> q" and "length b = PAGE_SIZE"
  shows "fst (thenM (WritePage p (Some b)) (ReadPage q (Some b')) d) =
         (if q = p then Inr b else fst (ReadPage q (Some b') d))"
  using disk.rd_after_wr [OF assms] assms by (simp add: ReadPage_disk_page)

lemma empty_disk_DiskManager: "DiskManager None True True = Inr empty_disk"
  by (simp add: DiskManager_def OpenFile_def empty_disk_def to_i32_def sign_wrap_def)

lemma wf_empty_disk [simp]: "wf_disk empty_disk"
  by (simp add: wf_disk_def empty_disk_def)

theorem disk_read_after_write_witness:
  "fst (thenM (WritePage 3 (Some (replicate PAGE_SIZE 7))) (ReadPage 3 (Some [])) empty_disk) =
     Inr (replicate PAGE_SIZE 7)"
  using disk_read_after_write [of empty_disk 3 3 "replicate PAGE_SIZE 7" "[]"] by simp

end
