(* ===== verification/Buffer_Pool.thy ===== *)
theory Buffer_Pool
  imports Disk_Manager
begin

text \<open>
  The buffer pool manager (\<open>src/src/storage/buffer_pool_manager.{h,cpp}\<close>): a fixed number
  of frames that cache disk pages, with pin counts, dirty flags and LRU replacement.

  A \<open>Page *\<close> that the pool hands out is the index of the frame that holds the page
  (\<open>None\<close> for \<open>nullptr\<close>); \<open>frame_data\<close> and \<open>set_frame_data\<close> read and write through that
  pointer. The page table is an association list: its order is the iteration order of the
  hash map, which the properties do not depend on. An iterator of \<open>lru_positions_\<close> is the
  flag that it differs from \<open>lru_.end()\<close>; the list node it points to is the one that
  holds its frame index. The disk manager the pool points to is a part of the state.

  \<open>view\<close> is the abstract contents of a page, cached or not. \<open>wf_pool H\<close> is the invariant of
  the pool, where \<open>H\<close> is the set of frames that are in no list (empty between calls).
\<close>

section \<open>State\<close>

record frame =
  frame_page :: page
  pin_count :: nat
  is_dirty :: bool

record pool =
  disk_manager :: disk
  frames :: "frame list"
  page_table :: "(int \<times> nat) list"
  free_frames :: "nat list"
  lru :: "nat list"
  lru_positions :: "bool list"

definition BufferPoolManager :: "nat \<Rightarrow> disk option \<Rightarrow> pool res" where
  "BufferPoolManager pool_size dm =
     (case dm of
        None \<Rightarrow> Inl (Invalid_Argument ''disk manager must not be null'')
      | Some d \<Rightarrow>
          Inr \<lparr>disk_manager = d,
               frames = replicate pool_size \<lparr>frame_page = Page, pin_count = 0, is_dirty = False\<rparr>,
               page_table = [], free_frames = rev [0..<pool_size], lru = [],
               lru_positions = replicate pool_size False\<rparr>)"

section \<open>Operations\<close>

definition on_disk :: "(disk, 'a) comp \<Rightarrow> (pool, 'a) comp" where
  "on_disk m = zoomM disk_manager (\<lambda>d p. p\<lparr>disk_manager := d\<rparr>) m"

definition set_frame :: "nat \<Rightarrow> frame \<Rightarrow> pool \<Rightarrow> pool" where
  "set_frame i fr p = p\<lparr>frames := (frames p)[i := fr]\<rparr>"

definition AddToLru :: "nat \<Rightarrow> (pool, unit) comp" where
  "AddToLru i =
     bindM (getM (\<lambda>p. lru_positions p ! i)) (\<lambda>present.
     if present then returnM ()
     else modifyM (\<lambda>p. p\<lparr>lru := i # lru p, lru_positions := (lru_positions p)[i := True]\<rparr>))"

definition RemoveFromLru :: "nat \<Rightarrow> (pool, unit) comp" where
  "RemoveFromLru i =
     bindM (getM (\<lambda>p. lru_positions p ! i)) (\<lambda>present.
     if \<not> present then returnM ()
     else modifyM (\<lambda>p. p\<lparr>lru := remove1 i (lru p), lru_positions := (lru_positions p)[i := False]\<rparr>))"

definition ResetFrame :: "nat \<Rightarrow> (pool, unit) comp" where
  "ResetFrame i =
     modifyM (\<lambda>p. set_frame i
       \<lparr>frame_page = (ResetMemory (frame_page (frames p ! i)))\<lparr>pg_id := INVALID_PAGE_ID\<rparr>,
        pin_count = 0, is_dirty = False\<rparr> p)"

definition AcquireFrame :: "(pool, nat) comp" where
  "AcquireFrame =
     bindM (getM free_frames) (\<lambda>ff.
     if ff \<noteq> [] then
       thenM (modifyM (\<lambda>p. p\<lparr>free_frames := butlast ff\<rparr>)) (returnM (last ff))
     else
       bindM (getM lru) (\<lambda>l.
       if l = [] then getM (\<lambda>p. length (frames p))
       else
         let frame_index = last l in
         thenM (RemoveFromLru frame_index) (
         bindM (getM (\<lambda>p. frames p ! frame_index)) (\<lambda>fr.
         let old_page_id = pg_id (frame_page fr) in
         thenM (if is_dirty fr
                then on_disk (WritePage old_page_id (Some (pg_data (frame_page fr))))
                else returnM ()) (
         thenM (modifyM (\<lambda>p. p\<lparr>page_table := AList.delete old_page_id (page_table p)\<rparr>)) (
         thenM (ResetFrame frame_index) (
         returnM frame_index)))))))"

definition emplace :: "'k \<Rightarrow> 'v \<Rightarrow> ('k \<times> 'v) list \<Rightarrow> ('k \<times> 'v) list" where
  "emplace k v al = (if map_of al k = None then (k, v) # al else al)"

definition FetchPage :: "int \<Rightarrow> (pool, nat option) comp" where
  "FetchPage page_id =
     (if page_id = INVALID_PAGE_ID then returnM None
      else
        bindM (getM (\<lambda>p. map_of (page_table p) page_id)) (\<lambda>existing.
        case existing of
          Some i \<Rightarrow>
            bindM (getM (\<lambda>p. frames p ! i)) (\<lambda>fr.
            thenM (if pin_count fr = 0 then RemoveFromLru i else returnM ()) (
            thenM (modifyM (set_frame i (fr\<lparr>pin_count := pin_count fr + 1\<rparr>))) (
            returnM (Some i))))
        | None \<Rightarrow>
            bindM AcquireFrame (\<lambda>i.
            bindM (getM (\<lambda>p. length (frames p))) (\<lambda>n.
            if i = n then returnM None
            else
              bindM (getM (\<lambda>p. frames p ! i)) (\<lambda>fr.
              bindM (on_disk (ReadPage page_id (Some (pg_data (frame_page fr))))) (\<lambda>bs.
              thenM (modifyM (set_frame i \<lparr>frame_page = \<lparr>pg_data = bs, pg_id = page_id\<rparr>,
                                           pin_count = 1, is_dirty = False\<rparr>)) (
              thenM (modifyM (\<lambda>p. p\<lparr>page_table := emplace page_id i (page_table p)\<rparr>)) (
              returnM (Some i)))))))))"

text \<open>\<open>NewPage\<close>: the argument says whether \<open>out_page_id\<close> is a valid pointer.\<close>

definition NewPage :: "bool \<Rightarrow> (pool, (nat \<times> int) option) comp" where
  "NewPage has_out =
     (if \<not> has_out then returnM None
      else
        bindM AcquireFrame (\<lambda>i.
        bindM (getM (\<lambda>p. length (frames p))) (\<lambda>n.
        if i = n then returnM None
        else
          bindM (on_disk AllocatePage) (\<lambda>page_id.
          bindM (getM (\<lambda>p. frames p ! i)) (\<lambda>fr.
          thenM (modifyM (set_frame i
                   \<lparr>frame_page = (ResetMemory (frame_page fr))\<lparr>pg_id := page_id\<rparr>,
                    pin_count = 1, is_dirty = False\<rparr>)) (
          thenM (modifyM (\<lambda>p. p\<lparr>page_table := emplace page_id i (page_table p)\<rparr>)) (
          returnM (Some (i, page_id)))))))))"

definition UnpinPage :: "int \<Rightarrow> bool \<Rightarrow> (pool, bool) comp" where
  "UnpinPage page_id dirty =
     bindM (getM (\<lambda>p. map_of (page_table p) page_id)) (\<lambda>entry.
     case entry of
       None \<Rightarrow> returnM False
     | Some i \<Rightarrow>
         bindM (getM (\<lambda>p. frames p ! i)) (\<lambda>fr.
         if pin_count fr = 0 then returnM False
         else
           thenM (modifyM (set_frame i (fr\<lparr>pin_count := pin_count fr - 1,
                                           is_dirty := is_dirty fr \<or> dirty\<rparr>))) (
           thenM (if pin_count fr - 1 = 0 then AddToLru i else returnM ()) (
           returnM True))))"

text \<open>The loop body that \<open>FlushPage\<close> and \<open>FlushAllPages\<close> share in the source.\<close>

definition flush_entry :: "int \<times> nat \<Rightarrow> (pool, unit) comp" where
  "flush_entry e =
     bindM (getM (\<lambda>p. frames p ! snd e)) (\<lambda>fr.
     if is_dirty fr then
       thenM (on_disk (WritePage (fst e) (Some (pg_data (frame_page fr)))))
             (modifyM (set_frame (snd e) (fr\<lparr>is_dirty := False\<rparr>)))
     else returnM ())"

definition FlushPage :: "int \<Rightarrow> (pool, bool) comp" where
  "FlushPage page_id =
     bindM (getM (\<lambda>p. map_of (page_table p) page_id)) (\<lambda>entry.
     case entry of
       None \<Rightarrow> returnM False
     | Some i \<Rightarrow> thenM (flush_entry (page_id, i)) (returnM True))"

definition FlushAllPages :: "(pool, unit) comp" where
  "FlushAllPages = bindM (getM page_table) (\<lambda>pt. foreachM pt flush_entry)"

definition DeletePage :: "int \<Rightarrow> (pool, bool) comp" where
  "DeletePage page_id =
     bindM (getM (\<lambda>p. map_of (page_table p) page_id)) (\<lambda>entry.
     case entry of
       None \<Rightarrow> thenM (on_disk (DeallocatePage page_id)) (returnM True)
     | Some i \<Rightarrow>
         bindM (getM (\<lambda>p. frames p ! i)) (\<lambda>fr.
         if pin_count fr \<noteq> 0 then returnM False
         else
           thenM (RemoveFromLru i) (
           thenM (ResetFrame i) (
           thenM (modifyM (\<lambda>p. p\<lparr>free_frames := free_frames p @ [i],
                                page_table := AList.delete page_id (page_table p)\<rparr>)) (
           thenM (on_disk (DeallocatePage page_id)) (returnM True))))))"

text \<open>Access through the pointer that \<open>FetchPage\<close> or \<open>NewPage\<close> returned.\<close>

definition frame_data :: "nat \<Rightarrow> (pool, bytes) comp" where
  "frame_data i = getM (\<lambda>p. pg_data (frame_page (frames p ! i)))"

definition set_frame_data :: "nat \<Rightarrow> bytes \<Rightarrow> (pool, unit) comp" where
  "set_frame_data i bs =
     modifyM (\<lambda>p. set_frame i ((frames p ! i)\<lparr>frame_page := (frame_page (frames p ! i))\<lparr>pg_data := bs\<rparr>\<rparr>) p)"

section \<open>Abstraction and invariant\<close>

abbreviation cached :: "pool \<Rightarrow> int \<Rightarrow> nat option" where
  "cached p q \<equiv> map_of (page_table p) q"

abbreviation data_of :: "pool \<Rightarrow> nat \<Rightarrow> bytes" where
  "data_of p i \<equiv> pg_data (frame_page (frames p ! i))"

abbreviation holds :: "pool \<Rightarrow> nat \<Rightarrow> int" where
  "holds p i \<equiv> pg_id (frame_page (frames p ! i))"

abbreviation allocated :: "pool \<Rightarrow> int set" where
  "allocated p \<equiv> live (disk_manager p)"

abbreviation space :: "pool \<Rightarrow> nat" where
  "space p \<equiv> room (disk_manager p)"

definition view :: "pool \<Rightarrow> int \<Rightarrow> bytes" where
  "view p q = (case cached p q of Some i \<Rightarrow> data_of p i | None \<Rightarrow> disk_page (disk_manager p) q)"

definition pins :: "pool \<Rightarrow> int \<Rightarrow> nat" where
  "pins p q = (case cached p q of Some i \<Rightarrow> pin_count (frames p ! i) | None \<Rightarrow> 0)"

text \<open>Nothing is lost if the page is dropped from the pool without being written.\<close>

definition synced :: "pool \<Rightarrow> int \<Rightarrow> bool" where
  "synced p q = (case cached p q of
     Some i \<Rightarrow> is_dirty (frames p ! i) \<or> data_of p i = disk_page (disk_manager p) q
   | None \<Rightarrow> True)"

definition mapped :: "pool \<Rightarrow> nat \<Rightarrow> bool" where
  "mapped p i \<longleftrightarrow> (\<exists>q. cached p q = Some i)"

definition wf_frames :: "pool \<Rightarrow> bool" where
  "wf_frames p \<longleftrightarrow> length (lru_positions p) = length (frames p) \<and>
     (\<forall>i < length (frames p). length (data_of p i) = PAGE_SIZE)"

definition wf_table :: "pool \<Rightarrow> bool" where
  "wf_table p \<longleftrightarrow> distinct (map fst (page_table p)) \<and>
     (\<forall>q i. cached p q = Some i \<longrightarrow> i < length (frames p) \<and> holds p i = q \<and> q \<in> allocated p)"

definition wf_free :: "nat set \<Rightarrow> pool \<Rightarrow> bool" where
  "wf_free H p \<longleftrightarrow> distinct (free_frames p) \<and>
     (\<forall>i < length (frames p). i \<in> set (free_frames p) \<longleftrightarrow> \<not> mapped p i \<and> i \<notin> H) \<and>
     (\<forall>i \<in> set (free_frames p). i < length (frames p)) \<and>
     (\<forall>i \<in> H. i < length (frames p) \<and> \<not> mapped p i)"

definition wf_lru :: "pool \<Rightarrow> bool" where
  "wf_lru p \<longleftrightarrow> distinct (lru p) \<and>
     (\<forall>i. i \<in> set (lru p) \<longleftrightarrow> mapped p i \<and> pin_count (frames p ! i) = 0) \<and>
     (\<forall>i < length (frames p). lru_positions p ! i \<longleftrightarrow> i \<in> set (lru p))"

definition wf_sync :: "pool \<Rightarrow> bool" where
  "wf_sync p \<longleftrightarrow> (\<forall>q. pins p q = 0 \<longrightarrow> synced p q)"

definition wf_pool :: "nat set \<Rightarrow> pool \<Rightarrow> bool" where
  "wf_pool H p \<longleftrightarrow> wf_disk (disk_manager p) \<and> wf_frames p \<and> wf_table p \<and> wf_free H p \<and>
     wf_lru p \<and> wf_sync p"

text \<open>The pool between two operations of its clients: every page is unpinned.\<close>

definition quiescent :: "pool \<Rightarrow> bool" where
  "quiescent p \<longleftrightarrow> wf_pool {} p \<and> (\<forall>q. pins p q = 0) \<and> frames p \<noteq> []"

section \<open>Relations between the states of the pool\<close>

definition with_lru :: "nat list \<Rightarrow> bool list \<Rightarrow> pool \<Rightarrow> pool" where
  "with_lru l ps p = p\<lparr>lru := l, lru_positions := ps\<rparr>"

definition same_pages :: "pool \<Rightarrow> pool \<Rightarrow> bool" where
  "same_pages p p' \<longleftrightarrow> allocated p' = allocated p \<and> space p' = space p \<and> length (frames p') = length (frames p) \<and>
     (\<forall>q\<ge>0. view p' q = view p q \<and> pins p' q = pins p q \<and> (synced p q \<longrightarrow> synced p' q)) \<and>
     (\<forall>q. cached p q = None \<longrightarrow> cached p' q = None) \<and>
     (\<forall>q\<ge>0. pins p q \<noteq> 0 \<longrightarrow> cached p' q = cached p q)"

text \<open>Dropping the page of an unpinned frame, once the disk holds its contents.\<close>

definition evicted :: "nat \<Rightarrow> disk \<Rightarrow> pool \<Rightarrow> pool" where
  "evicted i d p =
     p\<lparr>disk_manager := d,
       frames := (frames p)[i := \<lparr>frame_page = (ResetMemory (frame_page (frames p ! i)))\<lparr>pg_id := INVALID_PAGE_ID\<rparr>,
                                  pin_count = 0, is_dirty = False\<rparr>],
       page_table := AList.delete (holds p i) (page_table p),
       lru := remove1 i (lru p), lru_positions := (lru_positions p)[i := False]\<rparr>"

text \<open>Putting a page that is not cached into a frame that is in no list.\<close>

definition installed :: "nat \<Rightarrow> frame \<Rightarrow> pool \<Rightarrow> pool" where
  "installed i fr p =
     p\<lparr>frames := (frames p)[i := fr], page_table := emplace (pg_id (frame_page fr)) i (page_table p)\<rparr>"

text \<open>
  The effect of an operation on one page: its contents and its pin count become the given
  ones, every other page is as before.
\<close>

definition page_effect :: "int \<Rightarrow> bytes \<Rightarrow> nat \<Rightarrow> pool \<Rightarrow> pool \<Rightarrow> bool" where
  "page_effect q v k p p' \<longleftrightarrow>
     allocated p' = allocated p \<and> space p' = space p \<and> length (frames p') = length (frames p) \<and>
     (\<forall>r\<ge>0. view p' r = (if r = q then v else view p r) \<and>
            pins p' r = (if r = q then k else pins p r) \<and>
            (r \<noteq> q \<longrightarrow> synced p r \<longrightarrow> synced p' r) \<and>
            (r \<noteq> q \<longrightarrow> pins p r \<noteq> 0 \<longrightarrow> cached p' r = cached p r))"

definition others_same :: "int \<Rightarrow> pool \<Rightarrow> pool \<Rightarrow> bool" where
  "others_same q p p' \<longleftrightarrow> length (frames p') = length (frames p) \<and>
     (\<forall>r\<ge>0. r \<noteq> q \<longrightarrow> view p' r = view p r \<and> pins p' r = pins p r \<and>
        (synced p r \<longrightarrow> synced p' r) \<and> (pins p r \<noteq> 0 \<longrightarrow> cached p' r = cached p r))"

definition on_device :: "pool \<Rightarrow> int \<Rightarrow> bool" where
  "on_device p q \<longleftrightarrow> disk_page (disk_manager p) q = view p q"

text \<open>The allocated pages with their contents, and a page that a client holds alone.\<close>

definition pages_of :: "pool \<Rightarrow> int \<Rightarrow> bytes option" where
  "pages_of p q = (if q \<in> allocated p then Some (view p q) else None)"

definition held_page :: "int \<Rightarrow> nat \<Rightarrow> bool \<Rightarrow> pool \<Rightarrow> bool" where
  "held_page q i c p \<longleftrightarrow> wf_pool {} p \<and> frames p \<noteq> [] \<and> q \<in> allocated p \<and> cached p q = Some i \<and>
     pins p q = 1 \<and> (\<forall>r\<ge>0. r \<noteq> q \<longrightarrow> pins p r = 0) \<and> (c \<longrightarrow> synced p q)"

section \<open>Reachable states\<close>

text \<open>
  The calls a client makes in any order, under the pool's contract: it fetches, writes,
  unpins and deletes pages that are allocated, writes through a pointer only while the page
  is pinned, and passes the dirty flag when it has changed the page.
\<close>

inductive pool_reach :: "pool \<Rightarrow> bool" where
  init: "wf_disk d \<Longrightarrow> BufferPoolManager n (Some d) = Inr p \<Longrightarrow> pool_reach p"
| fetch: "pool_reach p \<Longrightarrow> q \<in> allocated p \<Longrightarrow> FetchPage q p = (Inr r, p') \<Longrightarrow> pool_reach p'"
| new: "pool_reach p \<Longrightarrow> NewPage b p = (Inr r, p') \<Longrightarrow> pool_reach p'"
| overwrite: "pool_reach p \<Longrightarrow> cached p q = Some i \<Longrightarrow> pins p q \<noteq> 0 \<Longrightarrow> length bs = PAGE_SIZE \<Longrightarrow>
    set_frame_data i bs p = (Inr (), p') \<Longrightarrow> pool_reach p'"
| unpin: "pool_reach p \<Longrightarrow> dirty \<or> synced p q \<Longrightarrow> UnpinPage q dirty p = (Inr r, p') \<Longrightarrow> pool_reach p'"
| flush: "pool_reach p \<Longrightarrow> FlushPage q p = (Inr r, p') \<Longrightarrow> pool_reach p'"
| flush_all: "pool_reach p \<Longrightarrow> FlushAllPages p = (Inr (), p') \<Longrightarrow> pool_reach p'"
| delete: "pool_reach p \<Longrightarrow> q \<in> allocated p \<Longrightarrow> DeletePage q p = (Inr r, p') \<Longrightarrow> pool_reach p'"

text \<open>A pool with two frames over a disk with three allocated pages.\<close>

definition demo_disk :: disk where
  "demo_disk = \<lparr>file_bytes = [], next_page_id = 3, free_list = [], num_flushes = 0, stream_ok = True\<rparr>"

definition demo_pool :: pool where
  "demo_pool = \<lparr>disk_manager = demo_disk,
     frames = replicate 2 \<lparr>frame_page = Page, pin_count = 0, is_dirty = False\<rparr>,
     page_table = [], free_frames = [1, 0], lru = [], lru_positions = [False, False]\<rparr>"

end
