(* ===== verification/Buffer_Pool_Spec.thy ===== *)
theory Buffer_Pool_Spec
  imports Buffer_Pool
begin

text \<open>
  The buffer pool keeps its invariant and implements a store of pages: what each operation
  of \<open>Buffer_Pool\<close> does to the invariant, to the abstract contents of the pages and to the
  pin counts, and the contract \<open>page_cache\<close> that the B+ tree and the table rely on.
\<close>

section \<open>The page table and the frames\<close>

lemma wf_tableD:
  assumes "wf_table p" and "cached p q = Some i"
  shows "i < length (frames p)" and "holds p i = q" and "q \<in> allocated p"
  using assms by (auto simp: wf_table_def)

lemma cached_inj: "wf_table p \<Longrightarrow> cached p q = Some i \<Longrightarrow> cached p q' = Some i \<Longrightarrow> q = q'"
  using wf_tableD(2) by blast

lemma mapped_holds: "wf_table p \<Longrightarrow> mapped p i \<longleftrightarrow> cached p (holds p i) = Some i"
  by (auto simp: mapped_def dest: wf_tableD)

lemma wf_poolD:
  assumes "wf_pool H p"
  shows "wf_disk (disk_manager p)" "wf_frames p" "wf_table p" "wf_free H p" "wf_lru p" "wf_sync p"
  using assms by (auto simp: wf_pool_def)

lemma AList_delete_cached [simp]: "map_of (AList.delete k al) = (map_of al)(k := None)"
  by (rule AList.delete_conv')

lemma cached_emplace: "map_of al k = None \<Longrightarrow> map_of (emplace k v al) = (map_of al)(k \<mapsto> v)"
  by (simp add: emplace_def)

text \<open>The LRU list operations.\<close>

lemma RemoveFromLru_run:
  assumes "wf_lru p" and "i < length (frames p)"
  shows "RemoveFromLru i p =
    (Inr (), p\<lparr>lru := remove1 i (lru p), lru_positions := (lru_positions p)[i := False]\<rparr>)"
proof (cases "lru_positions p ! i")
  case True
  then show ?thesis by (simp add: RemoveFromLru_def run)
next
  case False
  with assms have "remove1 i (lru p) = lru p" by (simp add: wf_lru_def remove1_idem)
  moreover from False have "(lru_positions p)[i := False] = lru_positions p"
    by (metis list_update_id)
  ultimately show ?thesis using False by (simp add: RemoveFromLru_def run)
qed

text \<open>A change of the frame that caches page \<open>q\<close>, seen from the pages.\<close>

lemma frame_of_other:
  assumes "wf_table p" and "cached p q = Some i" and "q' \<noteq> q"
  shows "cached p q' \<noteq> Some i"
  using assms cached_inj by blast

lemma view_set_frame:
  assumes "wf_table p" and "cached p q = Some i"
  shows "view (set_frame i fr p) q' = (if q' = q then pg_data (frame_page fr) else view p q')"
  using assms(2) wf_tableD(1) [OF assms] frame_of_other [OF assms, of q']
  by (cases "q' = q") (auto simp: view_def set_frame_def nth_list_update split: option.splits)

lemma pins_set_frame:
  assumes "wf_table p" and "cached p q = Some i"
  shows "pins (set_frame i fr p) q' = (if q' = q then pin_count fr else pins p q')"
  using assms(2) wf_tableD(1) [OF assms] frame_of_other [OF assms, of q']
  by (cases "q' = q") (auto simp: pins_def set_frame_def nth_list_update split: option.splits)

lemma synced_set_frame:
  assumes "wf_table p" and "cached p q = Some i"
  shows "synced (set_frame i fr p) q' =
    (if q' = q then is_dirty fr \<or> pg_data (frame_page fr) = disk_page (disk_manager p) q
     else synced p q')"
  using assms(2) wf_tableD(1) [OF assms] frame_of_other [OF assms, of q']
  by (cases "q' = q") (auto simp: synced_def set_frame_def nth_list_update split: option.splits)

lemma mapped_set_frame [simp]: "mapped (set_frame i fr p) = mapped p"
  by (auto simp: mapped_def set_frame_def fun_eq_iff)

lemma set_frame_sel [simp]:
  "disk_manager (set_frame i fr p) = disk_manager p"
  "page_table (set_frame i fr p) = page_table p"
  "free_frames (set_frame i fr p) = free_frames p"
  "lru (set_frame i fr p) = lru p"
  "lru_positions (set_frame i fr p) = lru_positions p"
  "length (frames (set_frame i fr p)) = length (frames p)"
  "i < length (frames p) \<Longrightarrow> frames (set_frame i fr p) ! i = fr"
  "j \<noteq> i \<Longrightarrow> frames (set_frame i fr p) ! j = frames p ! j"
  by (simp_all add: set_frame_def)

lemma wf_frames_set_frame:
  "wf_frames p \<Longrightarrow> i < length (frames p) \<Longrightarrow> length (pg_data (frame_page fr)) = PAGE_SIZE \<Longrightarrow>
   wf_frames (set_frame i fr p)"
  by (auto simp: wf_frames_def set_frame_def nth_list_update)

lemma wf_table_set_frame:
  assumes "wf_table p" and "cached p (pg_id (frame_page fr)) = Some i"
  shows "wf_table (set_frame i fr p)"
  unfolding wf_table_def
proof (intro conjI allI impI)
  show "distinct (map fst (page_table (set_frame i fr p)))"
    using assms(1) by (simp add: wf_table_def)
next
  fix q j
  assume "cached (set_frame i fr p) q = Some j"
  then have q: "cached p q = Some j" by simp
  show "j < length (frames (set_frame i fr p))" "holds (set_frame i fr p) j = q"
    "q \<in> allocated (set_frame i fr p)"
    using wf_tableD [OF assms(1) q] wf_tableD [OF assms] cached_inj [OF assms(1) q, of "pg_id (frame_page fr)"] assms(2)
    by (cases "j = i"; simp)+
qed

lemma wf_free_set_frame [simp]: "wf_free H (set_frame i fr p) = wf_free H p"
  by (auto simp: wf_free_def)

text \<open>Fields that the LRU bookkeeping does not touch.\<close>

lemma lru_update_irrelevant [simp]:
  fixes p :: pool and l ps defines "p' \<equiv> with_lru l ps p"
  shows "view p' = view p" "pins p' = pins p" "synced p' = synced p" "mapped p' = mapped p"
    "wf_table p' = wf_table p" "wf_free H p' = wf_free H p" "wf_sync p' = wf_sync p"
    "frames p' = frames p" "disk_manager p' = disk_manager p" "page_table p' = page_table p"
    "set_frame i fr p' = with_lru l ps (set_frame i fr p)"
    "length ps = length (lru_positions p) \<Longrightarrow> wf_frames p' = wf_frames p"
    "lru p' = l" "lru_positions p' = ps" "free_frames p' = free_frames p"
  unfolding p'_def with_lru_def
  by (auto simp: view_def pins_def synced_def mapped_def wf_table_def wf_free_def wf_sync_def
      wf_frames_def set_frame_def fun_eq_iff split: option.splits)



lemma cached_evicted: "cached (evicted i d p) q = (if q = holds p i then None else cached p q)"
  by (simp add: evicted_def)

lemma mapped_evicted:
  assumes "wf_table p" and "cached p (holds p i) = Some i"
  shows "mapped (evicted i d p) j \<longleftrightarrow> mapped p j \<and> j \<noteq> i"
  unfolding mapped_def cached_evicted using assms(2)
  by (metis cached_inj [OF assms(1)] option.distinct(1) option.inject)

lemma evicted_frames:
  "length (frames (evicted i d p)) = length (frames p)"
  "j \<noteq> i \<Longrightarrow> frames (evicted i d p) ! j = frames p ! j"
  "lru (evicted i d p) = remove1 i (lru p)"
  "lru_positions (evicted i d p) = (lru_positions p)[i := False]"
  "free_frames (evicted i d p) = free_frames p"
  "disk_manager (evicted i d p) = d"
  by (simp_all add: evicted_def)

lemma evicted_others:
  assumes wf: "wf_table p" and c: "cached p (holds p i) = Some i" and q: "0 \<le> q" "q \<noteq> holds p i"
    and d: "disk_page d q = disk_page (disk_manager p) q"
  shows "view (evicted i d p) q = view p q" and "pins (evicted i d p) q = pins p q"
    and "synced (evicted i d p) q = synced p q"
proof -
  have "j \<noteq> i" if "cached p q = Some j" for j
    using frame_of_other [OF wf c q(2)] that by blast
  with q d show "view (evicted i d p) q = view p q" and "pins (evicted i d p) q = pins p q"
    and "synced (evicted i d p) q = synced p q"
    by (auto simp: view_def pins_def synced_def cached_evicted evicted_frames split: option.splits)
qed

lemma evicted_pages:
  assumes wf: "wf_table p" and c: "cached p (holds p i) = Some i"
    and unpinned: "pin_count (frames p ! i) = 0"
    and d: "\<forall>q\<ge>0. disk_page d q = (if q = holds p i then data_of p i else disk_page (disk_manager p) q)"
      "live d = allocated p" "room d = space p"
  shows "same_pages p (evicted i d p)"
  unfolding same_pages_def
proof (intro conjI allI impI)
  show "allocated (evicted i d p) = allocated p" "space (evicted i d p) = space p"
    "length (frames (evicted i d p)) = length (frames p)"
    using d by (simp_all add: evicted_frames)
  fix q :: int
  assume q: "0 \<le> q"
  note other = evicted_others [OF wf c q, of d]
  show "view (evicted i d p) q = view p q"
    using c d(1) q other
    by (cases "q = holds p i") (auto simp: view_def cached_evicted evicted_frames)
  show "pins (evicted i d p) q = pins p q"
    using c d(1) q unpinned other by (cases "q = holds p i") (auto simp: pins_def cached_evicted)
  show "synced p q \<Longrightarrow> synced (evicted i d p) q"
    using d(1) q other by (cases "q = holds p i") (auto simp: synced_def cached_evicted)
  show "pins p q \<noteq> 0 \<Longrightarrow> cached (evicted i d p) q = cached p q"
    using c unpinned by (auto simp: cached_evicted pins_def)
qed (simp add: cached_evicted)

lemma evicted_wf_table:
  assumes wf: "wf_table p" and c: "cached p (holds p i) = Some i"
    and d: "allocated p - {holds p i} \<subseteq> live d"
  shows "wf_table (evicted i d p)"
  unfolding wf_table_def
proof (intro conjI allI impI)
  show "distinct (map fst (page_table (evicted i d p)))"
    using wf by (simp add: wf_table_def evicted_def distinct_delete)
next
  fix q j
  assume "cached (evicted i d p) q = Some j"
  then have q: "cached p q = Some j" and ne: "q \<noteq> holds p i"
    by (auto simp: cached_evicted split: if_splits)
  then have "j \<noteq> i" using frame_of_other [OF wf c] by blast
  with wf_tableD [OF wf q] d ne
  show "j < length (frames (evicted i d p))" "holds (evicted i d p) j = q"
    "q \<in> allocated (evicted i d p)"
    by (auto simp: evicted_frames)
qed

lemma evicted_wf_sync:
  assumes wf: "wf_table p" "wf_sync p" and c: "cached p (holds p i) = Some i"
    and d: "\<forall>q\<ge>0. q \<noteq> holds p i \<longrightarrow> disk_page d q = disk_page (disk_manager p) q"
      "allocated p - {holds p i} \<subseteq> live d"
  shows "wf_sync (evicted i d p)"
  unfolding wf_sync_def
proof (intro allI impI)
  fix q
  assume unpinned: "pins (evicted i d p) q = 0"
  show "synced (evicted i d p) q"
  proof (cases "cached (evicted i d p) q")
    case None
    then show ?thesis by (simp add: synced_def)
  next
    case (Some j)
    then have q: "cached p q = Some j" and ne: "q \<noteq> holds p i"
      by (auto simp: cached_evicted split: if_splits)
    then have "0 \<le> q" using wf_tableD(3) [OF wf(1) q] by (simp add: live_def)
    then show ?thesis
      using evicted_others [OF wf(1) c _ ne] unpinned d(1) wf(2) ne by (simp add: wf_sync_def)
  qed
qed

lemma evicted_wf:
  assumes wf: "wf_pool {} p" and c: "cached p (holds p i) = Some i"
    and unpinned: "pin_count (frames p ! i) = 0"
    and d: "\<forall>q\<ge>0. q \<noteq> holds p i \<longrightarrow> disk_page d q = disk_page (disk_manager p) q"
      "allocated p - {holds p i} \<subseteq> live d" "wf_disk d"
  shows "wf_pool {i} (evicted i d p)"
proof -
  note wfD = wf_poolD [OF wf]
  have n: "i < length (frames p)" using wf_tableD(1) [OF wfD(3) c] .
  have mi: "mapped p i" using c by (auto simp: mapped_def)
  have m: "mapped (evicted i d p) j \<longleftrightarrow> mapped p j \<and> j \<noteq> i" for j
    by (rule mapped_evicted [OF wfD(3) c])
  have "wf_frames (evicted i d p)"
    using wfD(2) n by (auto simp: wf_frames_def evicted_def nth_list_update ResetMemory_def)
  moreover have "wf_free {i} (evicted i d p)"
    using wfD(4) n mi by (auto simp: wf_free_def m evicted_frames)
  moreover have "wf_lru (evicted i d p)"
    using wfD(2,5) n by (auto simp: wf_lru_def m evicted_frames nth_list_update wf_frames_def)
  ultimately show ?thesis
    using d(3) evicted_wf_table [OF wfD(3) c d(2)] evicted_wf_sync [OF wfD(3,6) c d(1,2)]
    by (simp add: wf_pool_def evicted_frames)
qed

text \<open>A frame in no list that is put on the free list.\<close>

lemma free_list_update_irrelevant [simp]:
  fixes p :: pool and ff defines "p' \<equiv> p\<lparr>free_frames := ff\<rparr>"
  shows "view p' = view p" "pins p' = pins p" "synced p' = synced p" "mapped p' = mapped p"
    "wf_table p' = wf_table p" "wf_sync p' = wf_sync p" "wf_frames p' = wf_frames p"
    "wf_lru p' = wf_lru p"
  unfolding p'_def
  by (auto simp: view_def pins_def synced_def mapped_def wf_table_def wf_sync_def
      wf_frames_def wf_lru_def fun_eq_iff split: option.splits)

lemma free_hole_wf:
  assumes "wf_pool {i} p"
  shows "wf_pool {} (p\<lparr>free_frames := free_frames p @ [i]\<rparr>)"
  using assms by (auto simp: wf_pool_def wf_free_def)


text \<open>
  \<open>AcquireFrame\<close> either finds every frame pinned, or hands out a frame that is in no list,
  with all pages as they were.
\<close>

lemma AcquireFrame_evict:
  assumes wf: "wf_pool {} p" and ff: "free_frames p = []" and l: "lru p \<noteq> []"
  obtains d where "AcquireFrame p = (Inr (last (lru p)), evicted (last (lru p)) d p)"
    and "\<forall>q\<ge>0. disk_page d q = (if q = holds p (last (lru p)) then data_of p (last (lru p))
                                  else disk_page (disk_manager p) q)"
    and "live d = allocated p" and "room d = space p" and "wf_disk d"
proof -
  let ?i = "last (lru p)"
  note wfD = wf_poolD [OF wf]
  have "?i \<in> set (lru p)" using l by simp
  with wfD(5) have "mapped p ?i" and unpinned: "pin_count (frames p ! ?i) = 0"
    by (auto simp: wf_lru_def)
  with wfD(3) have c: "cached p (holds p ?i) = Some ?i" by (simp add: mapped_holds)
  have n: "?i < length (frames p)" and al: "holds p ?i \<in> allocated p"
    using wf_tableD [OF wfD(3) c] by auto
  then have pos: "0 \<le> holds p ?i" by (simp add: live_def)
  have len: "length (data_of p ?i) = PAGE_SIZE" using wfD(2) n by (simp add: wf_frames_def)
  have rem: "RemoveFromLru ?i p =
      (Inr (), p\<lparr>lru := remove1 ?i (lru p), lru_positions := (lru_positions p)[?i := False]\<rparr>)"
    by (rule RemoveFromLru_run [OF wfD(5) n])
  show thesis
  proof (cases "is_dirty (frames p ! ?i)")
    case True
    obtain d where w: "WritePage (holds p ?i) (Some (data_of p ?i)) (disk_manager p) = (Inr (), d)"
      and d: "wf_disk d" "live d = allocated p" "room d = space p"
        "\<forall>q\<ge>0. disk_page d q = (if q = holds p ?i then data_of p ?i else disk_page (disk_manager p) q)"
      using disk.wr_content [OF wfD(1) pos len] by blast
    have "AcquireFrame p = (Inr ?i, evicted ?i d p)"
      using ff l True
      by (simp add: AcquireFrame_def run rem on_disk_def w ResetFrame_def set_frame_def evicted_def Let_def)
    with d show thesis by (intro that) auto
  next
    case False
    have "pins p (holds p ?i) = 0" using c unpinned by (simp add: pins_def)
    with wfD(6) have "synced p (holds p ?i)" by (simp add: wf_sync_def)
    with False c have "data_of p ?i = disk_page (disk_manager p) (holds p ?i)"
      by (simp add: synced_def)
    moreover have "AcquireFrame p = (Inr ?i, evicted ?i (disk_manager p) p)"
      using ff l False
      by (simp add: AcquireFrame_def run rem ResetFrame_def set_frame_def evicted_def Let_def)
    ultimately show thesis using wfD(1) by (intro that) auto
  qed
qed

lemma AcquireFrame_free:
  assumes wf: "wf_pool {} p" and ff: "free_frames p \<noteq> []"
  shows "\<exists>i p'. AcquireFrame p = (Inr i, p') \<and> i < length (frames p) \<and> wf_pool {i} p' \<and> same_pages p p'"
proof -
  let ?i = "last (free_frames p)"
  let ?p = "p\<lparr>free_frames := butlast (free_frames p)\<rparr>"
  note wfD = wf_poolD [OF wf]
  have run: "AcquireFrame p = (Inr ?i, ?p)" using ff by (simp add: AcquireFrame_def run)
  have i: "?i \<in> set (free_frames p)" using ff by simp
  have "set (butlast (free_frames p)) = set (free_frames p) - {?i}"
    using wfD(4) ff last_notin_butlast [of "free_frames p"] set_butlast_last [of "free_frames p"]
    by (auto simp: wf_free_def)
  then have "wf_free {?i} ?p"
    using wfD(4) i by (auto simp: wf_free_def distinct_butlast)
  then have "wf_pool {?i} ?p" using wfD by (simp add: wf_pool_def)
  moreover have "same_pages p ?p" by (simp add: same_pages_def)
  moreover have "?i < length (frames p)" using i wfD(4) by (auto simp: wf_free_def)
  ultimately show ?thesis using run by blast
qed

lemma AcquireFrame_full:
  assumes wf: "wf_pool {} p" and "free_frames p = []" and "lru p = []"
  shows "AcquireFrame p = (Inr (length (frames p)), p)"
    and "\<forall>i < length (frames p). \<exists>q. cached p q = Some i \<and> 0 < pins p q"
proof -
  show "AcquireFrame p = (Inr (length (frames p)), p)"
    using assms by (simp add: AcquireFrame_def run)
  show "\<forall>i < length (frames p). \<exists>q. cached p q = Some i \<and> 0 < pins p q"
  proof (intro allI impI)
    fix i
    assume "i < length (frames p)"
    with wf_poolD(4) [OF wf] assms(2) have m: "mapped p i" by (auto simp: wf_free_def)
    then obtain q where "cached p q = Some i" by (auto simp: mapped_def)
    moreover have "pin_count (frames p ! i) \<noteq> 0"
      using wf_poolD(5) [OF wf] assms(3) m by (auto simp: wf_lru_def)
    ultimately show "\<exists>q. cached p q = Some i \<and> 0 < pins p q" by (auto simp: pins_def)
  qed
qed

lemma AcquireFrame_spec:
  assumes wf: "wf_pool {} p"
  obtains
    (full) "AcquireFrame p = (Inr (length (frames p)), p)"
      and "\<forall>i < length (frames p). \<exists>q. cached p q = Some i \<and> 0 < pins p q"
  | (frame) i p' where "AcquireFrame p = (Inr i, p')" and "i < length (frames p)"
      and "wf_pool {i} p'" and "same_pages p p'"
proof (cases "free_frames p = []")
  case False
  then show thesis using AcquireFrame_free [OF wf] frame by blast
next
  case True
  note wfD = wf_poolD [OF wf]
  show thesis
  proof (cases "lru p = []")
    case empty: True
    show thesis using AcquireFrame_full [OF wf True empty] by (rule full)
  next
    case False
    let ?i = "last (lru p)"
    have "?i \<in> set (lru p)" using False by simp
    with wfD(5) have "mapped p ?i" and pc: "pin_count (frames p ! ?i) = 0"
      by (auto simp: wf_lru_def)
    then have c: "cached p (holds p ?i) = Some ?i" using wfD(3) by (simp add: mapped_holds)
    obtain d where "AcquireFrame p = (Inr ?i, evicted ?i d p)"
      and d: "\<forall>q\<ge>0. disk_page d q = (if q = holds p ?i then data_of p ?i
                                    else disk_page (disk_manager p) q)"
        "live d = allocated p" "room d = space p" "wf_disk d"
      using AcquireFrame_evict [OF wf True False] by blast
    moreover have "wf_pool {?i} (evicted ?i d p)"
      by (rule evicted_wf [OF wf c pc]) (use d in auto)
    ultimately show thesis
      using frame wf_tableD(1) [OF wfD(3) c] evicted_pages [OF wfD(3) c pc d(1-3)] by blast
  qed
qed

lemma installed_sel:
  "disk_manager (installed i fr p) = disk_manager p"
  "free_frames (installed i fr p) = free_frames p"
  "lru (installed i fr p) = lru p"
  "lru_positions (installed i fr p) = lru_positions p"
  "length (frames (installed i fr p)) = length (frames p)"
  "i < length (frames p) \<Longrightarrow> frames (installed i fr p) ! i = fr"
  "j \<noteq> i \<Longrightarrow> frames (installed i fr p) ! j = frames p ! j"
  "cached p (pg_id (frame_page fr)) = None \<Longrightarrow>
     cached (installed i fr p) q = (if q = pg_id (frame_page fr) then Some i else cached p q)"
  by (simp_all add: installed_def cached_emplace)

lemma installed_pages:
  assumes "\<not> mapped p i" and "i < length (frames p)" and "cached p (pg_id (frame_page fr)) = None"
  shows "view (installed i fr p) q =
      (if q = pg_id (frame_page fr) then pg_data (frame_page fr) else view p q)"
    and "pins (installed i fr p) q = (if q = pg_id (frame_page fr) then pin_count fr else pins p q)"
    and "synced (installed i fr p) q =
      (if q = pg_id (frame_page fr)
       then is_dirty fr \<or> pg_data (frame_page fr) = disk_page (disk_manager p) q else synced p q)"
    and "mapped (installed i fr p) j \<longleftrightarrow> j = i \<or> mapped p j"
proof -
  have other: "cached p q = Some j \<Longrightarrow> j \<noteq> i" for q j
    using assms(1) by (auto simp: mapped_def)
  note sel = installed_sel(1-7) installed_sel(8) [OF assms(3)]
  show "view (installed i fr p) q =
      (if q = pg_id (frame_page fr) then pg_data (frame_page fr) else view p q)"
    using assms(2) by (auto simp: view_def sel dest: other split: option.splits)
  show "pins (installed i fr p) q = (if q = pg_id (frame_page fr) then pin_count fr else pins p q)"
    using assms(2) by (auto simp: pins_def sel dest: other split: option.splits)
  show "synced (installed i fr p) q =
      (if q = pg_id (frame_page fr)
       then is_dirty fr \<or> pg_data (frame_page fr) = disk_page (disk_manager p) q else synced p q)"
    using assms(2) by (auto simp: synced_def sel dest: other split: option.splits)
  show "mapped (installed i fr p) j \<longleftrightarrow> j = i \<or> mapped p j"
    unfolding mapped_def sel using assms(3) by (metis option.distinct(1) option.inject)
qed

lemma installed_wf:
  assumes wf: "wf_pool {i} p" and c: "cached p (pg_id (frame_page fr)) = None"
    and al: "pg_id (frame_page fr) \<in> allocated p"
    and fr: "length (pg_data (frame_page fr)) = PAGE_SIZE" "pin_count fr = 1"
  shows "wf_pool {} (installed i fr p)"
proof -
  note wfD = wf_poolD [OF wf]
  from wfD(4) have i: "i < length (frames p)" "\<not> mapped p i" by (auto simp: wf_free_def)
  note pages = installed_pages [OF i(2,1) c]
  note sel = installed_sel(1-7) installed_sel(8) [OF c]
  have other: "cached p q = Some j \<Longrightarrow> j \<noteq> i" for q j
    using i(2) by (auto simp: mapped_def)
  have "wf_frames (installed i fr p)"
    using wfD(2) fr(1) i(1) by (auto simp: wf_frames_def installed_def nth_list_update)
  moreover have "wf_table (installed i fr p)"
    unfolding wf_table_def
  proof (intro conjI allI impI)
    show "distinct (map fst (page_table (installed i fr p)))"
      using wfD(3) c by (auto simp: wf_table_def installed_def emplace_def map_of_eq_None_iff)
  next
    fix q j
    assume q: "cached (installed i fr p) q = Some j"
    show "j < length (frames (installed i fr p))" "holds (installed i fr p) j = q"
      "q \<in> allocated (installed i fr p)"
      using q i(1) al wf_tableD [OF wfD(3), of q j] other [of q j]
      by (auto simp: sel split: if_splits)
  qed
  moreover have "wf_free {} (installed i fr p)"
    using wfD(4) by (auto simp: wf_free_def pages sel)
  moreover have "wf_lru (installed i fr p)"
    unfolding wf_lru_def
  proof (intro conjI allI impI)
    show "distinct (lru (installed i fr p))" using wfD(5) by (simp add: wf_lru_def sel)
    fix j
    show "j \<in> set (lru (installed i fr p)) \<longleftrightarrow>
        mapped (installed i fr p) j \<and> pin_count (frames (installed i fr p) ! j) = 0"
      using wfD(5) i fr(2) by (cases "j = i") (auto simp: wf_lru_def pages sel)
    show "lru_positions (installed i fr p) ! j \<longleftrightarrow> j \<in> set (lru (installed i fr p))"
      if "j < length (frames (installed i fr p))"
      using wfD(5) that by (simp add: wf_lru_def sel)
  qed
  moreover have "wf_sync (installed i fr p)"
    using wfD(6) fr(2) by (auto simp: wf_sync_def pages)
  ultimately show ?thesis using wfD(1) by (simp add: wf_pool_def sel)
qed

text \<open>A change of the disk that the cached pages do not see.\<close>

lemma wf_pool_disk:
  assumes wf: "wf_pool H p" and d: "wf_disk d" "disk_page d = disk_page (disk_manager p)"
    "\<And>q i. cached p q = Some i \<Longrightarrow> q \<in> live d"
  shows "wf_pool H (p\<lparr>disk_manager := d\<rparr>)"
    and "view (p\<lparr>disk_manager := d\<rparr>) = view p" and "pins (p\<lparr>disk_manager := d\<rparr>) = pins p"
    and "synced (p\<lparr>disk_manager := d\<rparr>) = synced p"
proof -
  let ?p = "p\<lparr>disk_manager := d\<rparr>"
  show same: "view ?p = view p" "pins ?p = pins p" "synced ?p = synced p"
    using d(2) by (auto simp: view_def pins_def synced_def fun_eq_iff split: option.splits)
  have m: "mapped ?p = mapped p" by (auto simp: mapped_def)
  show "wf_pool H ?p"
    using wf d(1,3) by (auto simp: wf_pool_def wf_frames_def wf_table_def wf_free_def wf_lru_def wf_sync_def same m)
qed


lemma page_effect_trans:
  "page_effect q v k p p' \<Longrightarrow> page_effect q v' k' p' p'' \<Longrightarrow> page_effect q v' k' p p''"
  by (simp add: page_effect_def)

lemma same_pages_effect:
  "same_pages p p' \<Longrightarrow> page_effect q v k p' p'' \<Longrightarrow> page_effect q v k p p''"
  by (simp add: page_effect_def same_pages_def)

text \<open>Replacing a frame that is and stays pinned.\<close>

lemma set_frame_pinned_wf:
  assumes wf: "wf_pool H p" and c: "cached p q = Some i"
    and fr: "pg_id (frame_page fr) = q" "length (pg_data (frame_page fr)) = PAGE_SIZE"
      "pin_count fr \<noteq> 0" and pinned: "pins p q \<noteq> 0"
  shows "wf_pool H (set_frame i fr p)"
proof -
  note wfD = wf_poolD [OF wf]
  note i = wf_tableD [OF wfD(3) c]
  have "wf_lru (set_frame i fr p)"
    unfolding wf_lru_def
  proof (intro conjI allI impI)
    show "distinct (lru (set_frame i fr p))" using wfD(5) by (simp add: wf_lru_def)
    fix j
    show "j \<in> set (lru (set_frame i fr p)) \<longleftrightarrow>
        mapped (set_frame i fr p) j \<and> pin_count (frames (set_frame i fr p) ! j) = 0"
      using wfD(5) i(1) fr(3) pinned c by (cases "j = i") (auto simp: wf_lru_def pins_def)
    show "lru_positions (set_frame i fr p) ! j \<longleftrightarrow> j \<in> set (lru (set_frame i fr p))"
      if "j < length (frames (set_frame i fr p))"
      using wfD(5) that by (simp add: wf_lru_def)
  qed
  moreover have "wf_sync (set_frame i fr p)"
    using wfD(6) fr(3)
    by (simp add: wf_sync_def pins_set_frame [OF wfD(3) c] synced_set_frame [OF wfD(3) c])
  ultimately show ?thesis
    using wfD fr c i(1) by (simp add: wf_pool_def wf_frames_set_frame wf_table_set_frame)
qed

text \<open>A frame that leaves the LRU list by being pinned.\<close>

lemma pin_frame_wf:
  assumes wf: "wf_pool H p" and c: "cached p q = Some i"
    and fr: "pg_id (frame_page fr) = q" "length (pg_data (frame_page fr)) = PAGE_SIZE"
      "pin_count fr \<noteq> 0"
  shows "wf_pool H (set_frame i fr (p\<lparr>lru := remove1 i (lru p), lru_positions := (lru_positions p)[i := False]\<rparr>))"
    (is "wf_pool H (set_frame i fr ?p)")
proof -
  note wfD = wf_poolD [OF wf]
  note i = wf_tableD [OF wfD(3) c]
  have p: "?p = with_lru (remove1 i (lru p)) ((lru_positions p)[i := False]) p"
    by (simp add: with_lru_def)
  have m: "mapped p i" using c by (auto simp: mapped_def)
  have "wf_lru (set_frame i fr ?p)"
    unfolding wf_lru_def p
  proof (intro conjI allI impI, goal_cases)
    case 1
    show ?case using wfD(5) by (simp add: wf_lru_def)
  next
    case (2 j)
    show ?case using wfD(5) i(1) fr(3) by (cases "j = i") (auto simp: wf_lru_def)
  next
    case (3 j)
    then show ?case using wfD(2,5) i(1) by (auto simp: wf_lru_def nth_list_update wf_frames_def)
  qed
  moreover have "wf_sync (set_frame i fr ?p)"
    using wfD(6) fr(3) unfolding p
    by (simp add: wf_sync_def pins_set_frame [OF wfD(3) c] synced_set_frame [OF wfD(3) c])
  ultimately show ?thesis
    using wfD fr c i(1) unfolding p
    by (simp add: wf_pool_def wf_frames_set_frame wf_table_set_frame)
qed

lemma set_frame_effect:
  assumes "wf_table p" and "cached p q = Some i"
  shows "page_effect q (pg_data (frame_page fr)) (pin_count fr) p (set_frame i fr p)"
  by (simp add: page_effect_def view_set_frame [OF assms] pins_set_frame [OF assms]
      synced_set_frame [OF assms])

lemma page_effect_with_lru [simp]:
  "page_effect q v k p (with_lru l ps p') = page_effect q v k p p'"
  "page_effect q v k (with_lru l ps p) p' = page_effect q v k p p'"
  by (simp_all add: page_effect_def)

lemma FetchPage_hit:
  assumes wf: "wf_pool {} p" and c: "cached p q = Some i" and q: "q \<in> allocated p"
  obtains p' where "FetchPage q p = (Inr (Some i), p')" and "wf_pool {} p'"
    and "cached p' q = Some i" and "page_effect q (view p q) (pins p q + 1) p p'"
    and "synced p q \<Longrightarrow> synced p' q"
proof -
  note wfD = wf_poolD [OF wf]
  note i = wf_tableD [OF wfD(3) c]
  let ?fr = "(frames p ! i)\<lparr>pin_count := pin_count (frames p ! i) + 1\<rparr>"
  let ?l = "with_lru (remove1 i (lru p)) ((lru_positions p)[i := False])"
  have q1: "q \<noteq> INVALID_PAGE_ID" using q by (auto simp: live_def INVALID_PAGE_ID_def)
  have fr: "pg_id (frame_page ?fr) = q" "length (pg_data (frame_page ?fr)) = PAGE_SIZE" "pin_count ?fr \<noteq> 0"
    using i wfD(2) by (simp_all add: wf_frames_def)
  have eff: "page_effect q (view p q) (pins p q + 1) p (set_frame i ?fr p)"
    using set_frame_effect [OF wfD(3) c, of ?fr] c by (simp add: view_def pins_def)
  have syn: "synced p q \<Longrightarrow> synced (set_frame i ?fr p) q"
    using c by (simp add: synced_set_frame [OF wfD(3) c]) (simp add: synced_def)
  show thesis
  proof (cases "pin_count (frames p ! i) = 0")
    case True
    have "FetchPage q p = (Inr (Some i), set_frame i ?fr (?l p))"
      using q1 c True by (simp add: FetchPage_def run RemoveFromLru_run [OF wfD(5) i(1)] with_lru_def)
    moreover have "wf_pool {} (set_frame i ?fr (?l p))"
      using pin_frame_wf [OF wf c fr] by (simp add: with_lru_def)
    ultimately show thesis using that c eff syn by simp
  next
    case False
    have "FetchPage q p = (Inr (Some i), set_frame i ?fr p)"
      using q1 c False by (simp add: FetchPage_def run)
    moreover have "wf_pool {} (set_frame i ?fr p)"
      using set_frame_pinned_wf [OF wf c fr] c False by (simp add: pins_def)
    ultimately show thesis using that c eff syn by simp
  qed
qed

lemma FetchPage_spec:
  assumes wf: "wf_pool {} p" and q: "q \<in> allocated p"
  obtains
    (null) "FetchPage q p = (Inr None, p)" and "cached p q = None"
      and "\<forall>i < length (frames p). \<exists>r. cached p r = Some i \<and> 0 < pins p r"
  | (page) i p' where "FetchPage q p = (Inr (Some i), p')" and "wf_pool {} p'"
      and "cached p' q = Some i" and "page_effect q (view p q) (pins p q + 1) p p'"
      and "synced p q \<Longrightarrow> synced p' q"
proof (cases "cached p q")
  case (Some i)
  then show thesis by (rule FetchPage_hit [OF wf _ q]) (rule page)
next
  case None
  have q1: "q \<noteq> INVALID_PAGE_ID" and q0: "0 \<le> q"
    using q by (auto simp: live_def INVALID_PAGE_ID_def)
  show thesis
  proof (rule AcquireFrame_spec [OF wf])
    assume "AcquireFrame p = (Inr (length (frames p)), p)"
      and "\<forall>i < length (frames p). \<exists>r. cached p r = Some i \<and> 0 < pins p r"
    then show thesis using null None q1 by (simp add: FetchPage_def run)
  next
    fix i p1
    assume acq: "AcquireFrame p = (Inr i, p1)" and i: "i < length (frames p)"
      and wf1: "wf_pool {i} p1" and same: "same_pages p p1"
    let ?fr = "\<lparr>frame_page = \<lparr>pg_data = disk_page (disk_manager p1) q, pg_id = q\<rparr>,
                 pin_count = 1, is_dirty = False\<rparr>"
    note wfD = wf_poolD [OF wf1]
    have n: "length (frames p1) = length (frames p)" "q \<in> allocated p1"
      using same q by (simp_all add: same_pages_def)
    from wfD(4) have free: "\<not> mapped p1 i" by (simp add: wf_free_def)
    have c1: "cached p1 q = None" using same None by (simp add: same_pages_def)
    have "FetchPage q p = (Inr (Some i), installed i ?fr p1)"
      using q1 None i n(1) wfD(1) q0
      by (simp add: FetchPage_def run acq on_disk_def ReadPage_disk_page set_frame_def installed_def)
    moreover have "wf_pool {} (installed i ?fr p1)"
      by (rule installed_wf [OF wf1]) (simp_all add: c1 n)
    moreover have "cached (installed i ?fr p1) q = Some i" by (simp add: installed_sel c1)
    moreover have "view p1 q = disk_page (disk_manager p1) q" "pins p q = 0"
      using c1 None by (simp_all add: view_def pins_def)
    then have "page_effect q (view p q) (pins p q + 1) p (installed i ?fr p1)"
      using i n c1 same q0 None
      by (auto simp: page_effect_def installed_pages [OF free] installed_sel same_pages_def)
    moreover have "synced (installed i ?fr p1) q"
      using i n c1 by (simp add: installed_pages [OF free])
    ultimately show thesis by (rule page)
  qed
qed


lemma set_frame_data_spec:
  assumes wf: "wf_pool H p" and c: "cached p q = Some i" and pinned: "pins p q \<noteq> 0"
    and bs: "length bs = PAGE_SIZE"
  obtains p' where "set_frame_data i bs p = (Inr (), p')" and "wf_pool H p'"
    and "cached p' q = Some i" and "page_effect q bs (pins p q) p p'"
proof -
  note wfD = wf_poolD [OF wf]
  note i = wf_tableD [OF wfD(3) c]
  let ?fr = "(frames p ! i)\<lparr>frame_page := (frame_page (frames p ! i))\<lparr>pg_data := bs\<rparr>\<rparr>"
  have "wf_pool H (set_frame i ?fr p)"
    using i bs pinned c by (intro set_frame_pinned_wf [OF wf c]) (simp_all add: pins_def)
  moreover have "page_effect q bs (pins p q) p (set_frame i ?fr p)"
    using set_frame_effect [OF wfD(3) c, of ?fr] c by (simp add: pins_def)
  ultimately show thesis
    using that [of "set_frame i ?fr p"] c by (simp add: set_frame_data_def run)
qed

text \<open>A frame that enters the LRU list because its last pin is gone.\<close>

lemma unpin_last_wf:
  assumes wf: "wf_pool H p" and c: "cached p q = Some i" and pinned: "pins p q \<noteq> 0"
    and fr: "pg_id (frame_page fr) = q" "length (pg_data (frame_page fr)) = PAGE_SIZE" "pin_count fr = 0"
    and sync: "is_dirty fr \<or> pg_data (frame_page fr) = disk_page (disk_manager p) q"
  shows "wf_pool H (with_lru (i # lru p) ((lru_positions p)[i := True]) (set_frame i fr p))"
    (is "wf_pool H ?p")
proof -
  note wfD = wf_poolD [OF wf]
  note i = wf_tableD [OF wfD(3) c]
  have m: "mapped p i" and notin: "i \<notin> set (lru p)"
    using c pinned wfD(5) by (auto simp: mapped_def wf_lru_def pins_def)
  have "wf_lru ?p"
    unfolding wf_lru_def
  proof (intro conjI allI impI, goal_cases)
    case 1
    show ?case using wfD(5) notin by (simp add: wf_lru_def)
  next
    case (2 j)
    show ?case using wfD(5) i(1) fr(3) m by (cases "j = i") (auto simp: wf_lru_def)
  next
    case (3 j)
    then show ?case using wfD(2,5) i(1) by (auto simp: wf_lru_def nth_list_update wf_frames_def)
  qed
  moreover have "wf_sync ?p"
    using wfD(6) sync
    by (simp add: wf_sync_def pins_set_frame [OF wfD(3) c] synced_set_frame [OF wfD(3) c])
  ultimately show ?thesis
    using wfD fr c i(1) by (simp add: wf_pool_def wf_frames_set_frame wf_table_set_frame)
qed

lemma AddToLru_run:
  "\<not> lru_positions p ! i \<Longrightarrow>
   AddToLru i p = (Inr (), with_lru (i # lru p) ((lru_positions p)[i := True]) p)"
  by (simp add: AddToLru_def run with_lru_def)

lemma UnpinPage_spec:
  assumes wf: "wf_pool {} p" and c: "cached p q = Some i" and pinned: "pins p q \<noteq> 0"
    and sync: "dirty \<or> synced p q"
  obtains p' where "UnpinPage q dirty p = (Inr True, p')" and "wf_pool {} p'"
    and "page_effect q (view p q) (pins p q - 1) p p'" and "synced p' q"
proof -
  note wfD = wf_poolD [OF wf]
  note i = wf_tableD [OF wfD(3) c]
  let ?fr = "(frames p ! i)\<lparr>pin_count := pin_count (frames p ! i) - 1,
                             is_dirty := is_dirty (frames p ! i) \<or> dirty\<rparr>"
  let ?l = "with_lru (i # lru p) ((lru_positions p)[i := True])"
  have pc: "pin_count (frames p ! i) \<noteq> 0" using pinned c by (simp add: pins_def)
  have fr: "pg_id (frame_page ?fr) = q" "length (pg_data (frame_page ?fr)) = PAGE_SIZE"
    using i wfD(2) by (simp_all add: wf_frames_def)
  have sy: "is_dirty ?fr \<or> pg_data (frame_page ?fr) = disk_page (disk_manager p) q"
    using sync c by (auto simp: synced_def)
  have eff: "page_effect q (view p q) (pins p q - 1) p (set_frame i ?fr p)"
    using set_frame_effect [OF wfD(3) c, of ?fr] c by (simp add: view_def pins_def)
  have syn: "synced (set_frame i ?fr p) q"
    using sy by (simp add: synced_set_frame [OF wfD(3) c])
  show thesis
  proof (cases "pin_count (frames p ! i) - 1 = 0")
    case True
    have "\<not> lru_positions p ! i" using wfD(5) i(1) pc by (auto simp: wf_lru_def)
    then have "UnpinPage q dirty p = (Inr True, ?l (set_frame i ?fr p))"
      using c pc True by (simp add: UnpinPage_def run AddToLru_run)
    moreover have "wf_pool {} (?l (set_frame i ?fr p))"
      using True by (intro unpin_last_wf [OF wf c pinned fr _ sy]) simp
    ultimately show thesis using that eff syn by simp
  next
    case False
    have "UnpinPage q dirty p = (Inr True, set_frame i ?fr p)"
      using c pc False by (simp add: UnpinPage_def run)
    moreover have "wf_pool {} (set_frame i ?fr p)"
      using False by (intro set_frame_pinned_wf [OF wf c fr _ pinned]) simp
    ultimately show thesis using that eff syn by simp
  qed
qed


lemma page_effect_others: "page_effect q v k p p' \<Longrightarrow> others_same q p p'"
  by (simp add: page_effect_def others_same_def)

lemma others_same_trans: "others_same q p p' \<Longrightarrow> others_same q p' p'' \<Longrightarrow> others_same q p p''"
  by (simp add: others_same_def)

lemma NewPage_installs:
  assumes acq: "AcquireFrame p = (Inr i, p1)" and i: "i < length (frames p)"
    and wf1: "wf_pool {i} p1" and same: "same_pages p p1"
    and al: "AllocatePage (disk_manager p1) = (Inr q, d)"
  shows "\<exists>p'. NewPage True p = (Inr (Some (i, q)), p') \<and> wf_pool {} p' \<and>
    q \<notin> allocated p \<and> 0 \<le> q \<and> allocated p' = insert q (allocated p) \<and> Suc (space p') = space p \<and>
    cached p' q = Some i \<and> view p' q = replicate PAGE_SIZE 0 \<and> pins p' q = 1 \<and> others_same q p p'"
proof -
  note wfD = wf_poolD [OF wf1]
  note fresh = disk.alloc_fresh [OF wfD(1) al]
  have n: "length (frames p1) = length (frames p)" "allocated p1 = allocated p" "space p1 = space p"
    using same by (simp_all add: same_pages_def)
  let ?p = "p1\<lparr>disk_manager := d\<rparr>"
  let ?fr = "\<lparr>frame_page = (ResetMemory (frame_page (frames p1 ! i)))\<lparr>pg_id := q\<rparr>,
               pin_count = 1, is_dirty = False\<rparr>"
  let ?p' = "installed i ?fr ?p"
  have lv: "\<And>r j. cached p1 r = Some j \<Longrightarrow> r \<in> live d"
    using wf_tableD(3) [OF wfD(3)] fresh by auto
  have wf2: "wf_pool {i} ?p" and vs: "view ?p = view p1" "pins ?p = pins p1" "synced ?p = synced p1"
    using wf_pool_disk [where d = d, OF wf1 _ _ lv] fresh by auto
  have free: "\<not> mapped ?p i" using wf_poolD(4) [OF wf2] by (simp add: wf_free_def)
  have c2: "cached ?p (pg_id (frame_page ?fr)) = None"
    using wf_tableD(3) [OF wfD(3)] fresh by (cases "cached p1 q") auto
  have i2: "i < length (frames ?p)" using i n by simp
  note pages = installed_pages [OF free i2 c2]
  have "NewPage True p = (Inr (Some (i, q)), ?p')"
    using i n by (simp add: NewPage_def run acq on_disk_def al set_frame_def installed_def)
  moreover have "wf_pool {} ?p'"
    by (rule installed_wf [OF wf2 c2]) (use fresh in \<open>simp_all add: ResetMemory_def\<close>)
  moreover have "view ?p' q = replicate PAGE_SIZE 0" "pins ?p' q = 1"
    using pages(1,2) [of q] by (simp_all add: ResetMemory_def)
  moreover have "others_same q p ?p'"
    unfolding others_same_def pages installed_sel(8) [OF c2]
    using n same by (simp add: same_pages_def vs installed_sel)
  moreover have "allocated ?p' = insert q (allocated p)" "Suc (space ?p') = space p"
    "cached ?p' q = Some i"
    using fresh n c2 by (simp_all add: installed_sel)
  ultimately show ?thesis using fresh n by auto
qed

lemma NewPage_spec:
  assumes wf: "wf_pool {} p"
  obtains
    (null) "NewPage True p = (Inr None, p)"
      and "\<forall>i < length (frames p). \<exists>r. cached p r = Some i \<and> 0 < pins p r"
  | (limit) i p' where "NewPage True p = (Inl (Runtime_Error ''page id limit reached''), p')"
      and "wf_pool {i} p'" and "same_pages p p'" and "space p = 0"
  | (page) i q p' where "NewPage True p = (Inr (Some (i, q)), p')" and "wf_pool {} p'"
      and "q \<notin> allocated p" and "0 \<le> q" and "allocated p' = insert q (allocated p)"
      and "Suc (space p') = space p"
      and "cached p' q = Some i" and "view p' q = replicate PAGE_SIZE 0" and "pins p' q = 1"
      and "others_same q p p'"
proof (rule AcquireFrame_spec [OF wf])
  assume "AcquireFrame p = (Inr (length (frames p)), p)"
    and "\<forall>i < length (frames p). \<exists>r. cached p r = Some i \<and> 0 < pins p r"
  then show thesis using null by (simp add: NewPage_def run)
next
  fix i p1
  assume acq: "AcquireFrame p = (Inr i, p1)" and i: "i < length (frames p)"
    and wf1: "wf_pool {i} p1" and same: "same_pages p p1"
  note wfD = wf_poolD [OF wf1]
  have n: "length (frames p1) = length (frames p)" "space p1 = space p"
    using same by (simp_all add: same_pages_def)
  obtain r d where al: "AllocatePage (disk_manager p1) = (r, d)" by fastforce
  show thesis
  proof (cases r)
    case (Inl e)
    with al wfD(1) have "e = Runtime_Error ''page id limit reached''" "d = disk_manager p1"
      by (auto simp: AllocatePage_cases split: if_splits)
    then have "NewPage True p = (Inl (Runtime_Error ''page id limit reached''), p1)"
      using i n Inl by (simp add: NewPage_def run acq on_disk_def al)
    moreover have "space p = 0"
      using disk.alloc_succeeds [OF wfD(1)] al Inl n(2) by (metis Inl_Inr_False neq0_conv prod.inject)
    ultimately show thesis using limit wf1 same by blast
  next
    case (Inr q)
    then show thesis using NewPage_installs [OF acq i wf1 same] al page by blast
  qed
qed

text \<open>The frame of a deleted page becomes free.\<close>

lemma DeletePage_spec:
  assumes wf: "wf_pool {} p" and q: "q \<in> allocated p" and unpinned: "pins p q = 0"
  obtains p' where "DeletePage q p = (Inr True, p')" and "wf_pool {} p'"
    and "allocated p' = allocated p - {q}" and "space p' = Suc (space p)"
    and "others_same q p p'" and "pins p' q = 0"
proof -
  note wfD = wf_poolD [OF wf]
  obtain d where dl: "DeallocatePage q (disk_manager p) = (Inr (), d)"
    and d: "wf_disk d" "live d = allocated p - {q}" "disk_page d = disk_page (disk_manager p)"
      "room d = Suc (space p)"
    using disk.dealloc_used [OF wfD(1) q] by blast
  show thesis
  proof (cases "cached p q")
    case None
    have lv: "\<And>r j. cached p r = Some j \<Longrightarrow> r \<in> live d"
      using wf_tableD(3) [OF wfD(3)] None d(2) by auto
    have "DeletePage q p = (Inr True, p\<lparr>disk_manager := d\<rparr>)"
      using None by (simp add: DeletePage_def run on_disk_def dl)
    then show thesis
      using that wf_pool_disk [OF wf d(1,3) lv] d(2,4) unpinned by (simp add: others_same_def)
  next
    case c: (Some i)
    note i = wf_tableD [OF wfD(3) c]
    let ?p1 = "evicted i d p"
    let ?p2 = "?p1\<lparr>free_frames := free_frames ?p1 @ [i]\<rparr>"
    have ci: "cached p (holds p i) = Some i" and pc: "pin_count (frames p ! i) = 0"
      using c i(2) unpinned by (simp_all add: pins_def)
    have "DeletePage q p = (Inr True, ?p2)"
      using c pc i
      by (simp add: DeletePage_def run RemoveFromLru_run [OF wfD(5) i(1)] ResetFrame_def
          set_frame_def on_disk_def dl evicted_def)
    moreover have "wf_pool {i} ?p1"
      by (rule evicted_wf [OF wf ci pc]) (use d i(2) in auto)
    then have "wf_pool {} ?p2" by (rule free_hole_wf)
    moreover have "others_same q p ?p2"
      using evicted_others [OF wfD(3) ci] d(3) i(2) by (simp add: others_same_def evicted_frames cached_evicted)
    moreover have "pins ?p2 q = 0"
      using i(2) by (simp add: pins_def cached_evicted)
    ultimately show thesis
      using that d(2,4) by (simp add: evicted_frames)
  qed
qed





section \<open>The contract of a page cache\<close>

text \<open>
  What the clients of the pool rely on, over the partial map \<open>pages\<close> from the allocated
  page ids to their contents. \<open>held q i c p\<close>: page \<open>q\<close> is the only pinned page and frame
  \<open>i\<close> is the pointer to it; \<open>c\<close> says that it may be unpinned without the dirty flag.
\<close>

locale page_cache =
  fixes fetch :: "int \<Rightarrow> ('p, nat option) comp"
    and newp :: "bool \<Rightarrow> ('p, (nat \<times> int) option) comp"
    and unpin :: "int \<Rightarrow> bool \<Rightarrow> ('p, bool) comp"
    and del :: "int \<Rightarrow> ('p, bool) comp"
    and rdat :: "nat \<Rightarrow> ('p, bytes) comp"
    and wrat :: "nat \<Rightarrow> bytes \<Rightarrow> ('p, unit) comp"
    and pages :: "'p \<Rightarrow> int \<Rightarrow> bytes option"
    and avail :: "'p \<Rightarrow> nat"
    and idle :: "'p \<Rightarrow> bool"
    and held :: "int \<Rightarrow> nat \<Rightarrow> bool \<Rightarrow> 'p \<Rightarrow> bool"
  assumes pages_wf: "idle p \<Longrightarrow> pages p q = Some v \<Longrightarrow> length v = PAGE_SIZE \<and> 0 \<le> q \<and> q < 2 ^ 31"
    and fetch_held: "idle p \<Longrightarrow> pages p q = Some v \<Longrightarrow>
      \<exists>i p'. fetch q p = (Inr (Some i), p') \<and> held q i True p' \<and> pages p' = pages p \<and> avail p' = avail p"
    and rdat_pages: "held q i c p \<Longrightarrow> pages p q = Some v \<Longrightarrow> rdat i p = (Inr v, p)"
    and wrat_pages: "held q i c p \<Longrightarrow> length bs = PAGE_SIZE \<Longrightarrow>
      \<exists>p'. wrat i bs p = (Inr (), p') \<and> held q i False p' \<and> pages p' = (pages p)(q \<mapsto> bs) \<and>
           avail p' = avail p"
    and unpin_idle: "held q i c p \<Longrightarrow> c \<or> dirty \<Longrightarrow>
      \<exists>p'. unpin q dirty p = (Inr True, p') \<and> idle p' \<and> pages p' = pages p \<and> avail p' = avail p"
    and newp_held: "idle p \<Longrightarrow> 0 < avail p \<Longrightarrow>
      \<exists>i q p'. newp True p = (Inr (Some (i, q)), p') \<and> held q i False p' \<and> pages p q = None \<and>
           0 \<le> q \<and> q < 2 ^ 31 \<and> pages p' = (pages p)(q \<mapsto> replicate PAGE_SIZE 0) \<and>
           Suc (avail p') = avail p"
    and del_pages: "idle p \<Longrightarrow> pages p q \<noteq> None \<Longrightarrow>
      \<exists>p'. del q p = (Inr True, p') \<and> idle p' \<and> pages p' = (pages p)(q := None) \<and>
           avail p' = Suc (avail p)"
begin

text \<open>The three ways in which the clients use a page: read it, overwrite it, create it.\<close>

lemma read_page:
  assumes "idle p" and "pages p q = Some v" and "g v = Inr x"
  shows "\<exists>p'. bindM (fetch q) (\<lambda>r. case r of None \<Rightarrow> throwM e | Some i \<Rightarrow>
             bindM (rdat i) (\<lambda>bs. bindM (liftM (g bs)) (\<lambda>y.
             thenM (unpin q False) (returnM y)))) p = (Inr x, p') \<and>
           idle p' \<and> pages p' = pages p \<and> avail p' = avail p"
proof -
  obtain i p1 where 1: "fetch q p = (Inr (Some i), p1)" "held q i True p1" "pages p1 = pages p"
    "avail p1 = avail p"
    using fetch_held [OF assms(1,2)] by blast
  obtain p2 where 2: "unpin q False p1 = (Inr True, p2)" "idle p2" "pages p2 = pages p1"
    "avail p2 = avail p1"
    using unpin_idle [OF 1(2), of False] by blast
  have "rdat i p1 = (Inr v, p1)" using rdat_pages [OF 1(2)] assms(2) 1(3) by simp
  with 1 2 assms(3) show ?thesis by (simp add: run)
qed

lemma write_page:
  assumes "idle p" and "pages p q = Some v" and "length bs = PAGE_SIZE"
  shows "\<exists>p'. bindM (fetch q) (\<lambda>r. case r of None \<Rightarrow> throwM e | Some i \<Rightarrow>
             thenM (wrat i bs) (thenM (unpin q True) (returnM y))) p = (Inr y, p') \<and>
           idle p' \<and> pages p' = (pages p)(q \<mapsto> bs) \<and> avail p' = avail p"
proof -
  obtain i p1 where 1: "fetch q p = (Inr (Some i), p1)" "held q i True p1" "pages p1 = pages p"
    "avail p1 = avail p"
    using fetch_held [OF assms(1,2)] by blast
  obtain p2 where 2: "wrat i bs p1 = (Inr (), p2)" "held q i False p2"
    "pages p2 = (pages p1)(q \<mapsto> bs)" "avail p2 = avail p1"
    using wrat_pages [OF 1(2) assms(3)] by blast
  obtain p3 where 3: "unpin q True p2 = (Inr True, p3)" "idle p3" "pages p3 = pages p2"
    "avail p3 = avail p2"
    using unpin_idle [OF 2(2), of True] by blast
  from 1 2 3 show ?thesis by (simp add: run)
qed

lemma create_page:
  assumes "idle p" and "0 < avail p" and "\<And>q. 0 \<le> q \<Longrightarrow> q < 2 ^ 31 \<Longrightarrow> length (img q) = PAGE_SIZE"
  shows "\<exists>q p'. bindM (newp True) (\<lambda>r. case r of None \<Rightarrow> k | Some (i, q) \<Rightarrow>
             thenM (wrat i (img q)) (thenM (unpin q True) (returnM q))) p = (Inr q, p') \<and>
           idle p' \<and> pages p q = None \<and> 0 \<le> q \<and> q < 2 ^ 31 \<and>
           pages p' = (pages p)(q \<mapsto> img q) \<and> Suc (avail p') = avail p"
proof -
  obtain i q p1 where 1: "newp True p = (Inr (Some (i, q)), p1)" "held q i False p1"
    "pages p q = None" "0 \<le> q" "q < 2 ^ 31" "pages p1 = (pages p)(q \<mapsto> replicate PAGE_SIZE 0)"
    "Suc (avail p1) = avail p"
    using newp_held [OF assms(1,2)] by blast
  obtain p2 where 2: "wrat i (img q) p1 = (Inr (), p2)" "held q i False p2"
    "pages p2 = (pages p1)(q \<mapsto> img q)" "avail p2 = avail p1"
    using wrat_pages [OF 1(2) assms(3) [OF 1(4,5)]] by blast
  obtain p3 where 3: "unpin q True p2 = (Inr True, p3)" "idle p3" "pages p3 = pages p2"
    "avail p3 = avail p2"
    using unpin_idle [OF 2(2), of True] by blast
  from 1 2 3 show ?thesis by (intro exI [of _ q] exI [of _ p3]) (simp add: run)
qed

end

section \<open>The buffer pool is a page cache\<close>

lemma pins_negative:
  assumes "wf_pool H p" and "q < 0"
  shows "pins p q = 0"
proof (cases "cached p q")
  case (Some i)
  then show ?thesis using wf_tableD(3) [OF wf_poolD(3) [OF assms(1)]] assms(2) by (force simp: live_def)
qed (simp add: pins_def)

lemma quiescentI:
  assumes "wf_pool {} p" and "frames p \<noteq> []" and "\<And>q. 0 \<le> q \<Longrightarrow> pins p q = 0"
  shows "quiescent p"
  using assms pins_negative [OF assms(1)] by (auto simp: quiescent_def) (metis not_less)

lemma allocated_range:
  assumes "wf_pool H p" and "q \<in> allocated p"
  shows "0 \<le> q" and "q < 2 ^ 31"
  using assms wf_poolD(1) [OF assms(1)] by (auto simp: live_def wf_disk_def)

lemma view_length:
  assumes "wf_pool H p"
  shows "length (view p q) = PAGE_SIZE"
  using wf_poolD(2) [OF assms] wf_tableD(1) [OF wf_poolD(3) [OF assms]]
  by (auto simp: view_def wf_frames_def split: option.splits)

lemma page_effect_pages:
  assumes "wf_pool H p" and "page_effect q v k p p'" and "q \<in> allocated p"
  shows "pages_of p' = (pages_of p)(q \<mapsto> v)"
  using assms allocated_range(1) [OF assms(1)]
  by (auto simp: pages_of_def page_effect_def fun_eq_iff)

lemma page_effect_frames: "page_effect q v k p p' \<Longrightarrow> frames p' = [] \<longleftrightarrow> frames p = []"
  by (auto simp: page_effect_def)

lemma pool_pages_wf:
  assumes "quiescent p" and "pages_of p q = Some v"
  shows "length v = PAGE_SIZE \<and> 0 \<le> q \<and> q < 2 ^ 31"
proof -
  from assms show ?thesis
    using view_length allocated_range by (auto simp: pages_of_def quiescent_def split: if_splits)
qed

lemma pool_fetch_held:
  assumes idle: "quiescent p" and "pages_of p q = Some v"
  shows "\<exists>i p'. FetchPage q p = (Inr (Some i), p') \<and> held_page q i True p' \<and>
      pages_of p' = pages_of p \<and> space p' = space p"
proof -
  from assms have wf: "wf_pool {} p" and q: "q \<in> allocated p" and pins: "\<forall>r. pins p r = 0"
    and ne: "frames p \<noteq> []"
    by (auto simp: quiescent_def pages_of_def split: if_splits)
  show ?thesis
  proof (rule FetchPage_spec [OF wf q])
    assume "\<forall>i < length (frames p). \<exists>r. cached p r = Some i \<and> 0 < pins p r"
    with ne pins show ?thesis by (metis length_greater_0_conv less_numeral_extra(3))
  next
    fix i p'
    assume f: "FetchPage q p = (Inr (Some i), p')" "wf_pool {} p'" "cached p' q = Some i"
      "page_effect q (view p q) (pins p q + 1) p p'" "synced p q \<Longrightarrow> synced p' q"
    have "synced p q" using wf_poolD(6) [OF wf] pins by (simp add: wf_sync_def)
    then have "held_page q i True p'"
      using f q pins ne allocated_range [OF wf q] page_effect_frames [OF f(4)]
      by (simp add: held_page_def page_effect_def)
    moreover have "pages_of p' = pages_of p"
      using page_effect_pages [OF wf f(4) q] q by (auto simp: pages_of_def)
    ultimately show ?thesis using f by (auto simp: page_effect_def)
  qed
qed

lemma pool_rdat:
  assumes "held_page q i c p" and "pages_of p q = Some v"
  shows "frame_data i p = (Inr v, p)"
proof -
  from assms show ?thesis
    by (auto simp: held_page_def frame_data_def run pages_of_def view_def)
qed

lemma pool_wrat:
  assumes h: "held_page q i c p" and bs: "length bs = PAGE_SIZE"
  shows "\<exists>p'. set_frame_data i bs p = (Inr (), p') \<and> held_page q i False p' \<and>
      pages_of p' = (pages_of p)(q \<mapsto> bs) \<and> space p' = space p"
proof -
  from assms have wf: "wf_pool {} p" and c: "cached p q = Some i" and pq: "pins p q \<noteq> 0"
    by (auto simp: held_page_def)
  obtain p' where s: "set_frame_data i bs p = (Inr (), p')" "wf_pool {} p'" "cached p' q = Some i"
    "page_effect q bs (pins p q) p p'"
    by (rule set_frame_data_spec [OF wf c pq bs])
  have "held_page q i False p'"
    using h s page_effect_frames [OF s(4)] allocated_range [OF wf]
    by (simp add: held_page_def page_effect_def)
  moreover have "pages_of p' = (pages_of p)(q \<mapsto> bs)"
    using page_effect_pages [OF wf s(4)] h by (simp add: held_page_def)
  ultimately show ?thesis
    using s by (auto simp: page_effect_def)
qed

lemma pool_unpin_idle:
  assumes h: "held_page q i c p" and "c \<or> dirty"
  shows "\<exists>p'. UnpinPage q dirty p = (Inr True, p') \<and> quiescent p' \<and>
      pages_of p' = pages_of p \<and> space p' = space p"
proof -
  from assms have wf: "wf_pool {} p" and c: "cached p q = Some i" and pq: "pins p q \<noteq> 0"
    and sy: "dirty \<or> synced p q" and q: "q \<in> allocated p"
    by (auto simp: held_page_def)
  obtain p' where u: "UnpinPage q dirty p = (Inr True, p')" "wf_pool {} p'"
    "page_effect q (view p q) (pins p q - 1) p p'"
    by (rule UnpinPage_spec [OF wf c pq sy])
  have "quiescent p'"
    using h u page_effect_frames [OF u(3)] by (intro quiescentI) (auto simp: held_page_def page_effect_def)
  moreover have "pages_of p' = pages_of p"
    using page_effect_pages [OF wf u(3) q] q by (auto simp: pages_of_def)
  ultimately show ?thesis
    using u by (auto simp: page_effect_def)
qed

lemma pool_newp_held:
  assumes idle: "quiescent p" and sp: "0 < space p"
  shows "\<exists>i q p'. NewPage True p = (Inr (Some (i, q)), p') \<and> held_page q i False p' \<and>
      pages_of p q = None \<and> 0 \<le> q \<and> q < 2 ^ 31 \<and>
      pages_of p' = (pages_of p)(q \<mapsto> replicate PAGE_SIZE 0) \<and> Suc (space p') = space p"
proof -
  from assms have wf: "wf_pool {} p" and pins: "\<forall>r. pins p r = 0" and ne: "frames p \<noteq> []"
    by (auto simp: quiescent_def)
  show ?thesis
  proof (rule NewPage_spec [OF wf])
    assume "\<forall>i < length (frames p). \<exists>r. cached p r = Some i \<and> 0 < pins p r"
    with ne pins show ?thesis by (metis length_greater_0_conv less_numeral_extra(3))
  next
    assume "space p = 0"
    with sp show ?thesis by simp
  next
    fix i q p'
    assume n: "NewPage True p = (Inr (Some (i, q)), p')" "wf_pool {} p'" "q \<notin> allocated p" "0 \<le> q"
      "allocated p' = insert q (allocated p)" "Suc (space p') = space p" "cached p' q = Some i"
      "view p' q = replicate PAGE_SIZE 0" "pins p' q = 1" "others_same q p p'"
    have "frames p' \<noteq> []" using n(10) ne by (auto simp: others_same_def)
    then have "held_page q i False p'"
      using n pins by (simp add: held_page_def others_same_def)
    moreover have "pages_of p' = (pages_of p)(q \<mapsto> replicate PAGE_SIZE 0)"
      using n allocated_range(1) [OF wf] by (auto simp: pages_of_def others_same_def fun_eq_iff)
    moreover have "q < 2 ^ 31" using allocated_range(2) [OF n(2), of q] n(5) by simp
    ultimately show ?thesis using n by (auto simp: pages_of_def)
  qed
qed

lemma pool_del_pages:
  assumes idle: "quiescent p" and "pages_of p q \<noteq> None"
  shows "\<exists>p'. DeletePage q p = (Inr True, p') \<and> quiescent p' \<and>
      pages_of p' = (pages_of p)(q := None) \<and> space p' = Suc (space p)"
proof -
  from assms have wf: "wf_pool {} p" and q: "q \<in> allocated p" and pins: "\<forall>r. pins p r = 0"
    and ne: "frames p \<noteq> []"
    by (auto simp: quiescent_def pages_of_def split: if_splits)
  obtain p' where d: "DeletePage q p = (Inr True, p')" "wf_pool {} p'"
    "allocated p' = allocated p - {q}" "space p' = Suc (space p)" "others_same q p p'" "pins p' q = 0"
    by (rule DeletePage_spec [OF wf q spec [OF pins]])
  have "frames p' \<noteq> []" using d(5) ne by (auto simp: others_same_def)
  then have "quiescent p'"
    using d pins by (intro quiescentI) (auto simp: others_same_def)
  moreover have "pages_of p' = (pages_of p)(q := None)"
    using d allocated_range(1) [OF wf] by (auto simp: pages_of_def others_same_def fun_eq_iff)
  ultimately show ?thesis
    using d by blast
qed

interpretation pool_cache: page_cache FetchPage NewPage UnpinPage DeletePage frame_data set_frame_data
  pages_of space quiescent held_page
  by unfold_locales (fact pool_pages_wf pool_fetch_held pool_rdat pool_wrat pool_unpin_idle pool_newp_held pool_del_pages)+

section \<open>Properties\<close>

lemma initial_pool_wf:
  assumes "wf_disk d" and "BufferPoolManager n (Some d) = Inr p"
  shows "wf_pool {} p" and "pins p q = 0" and "length (frames p) = n" and "disk_manager p = d"
    and "page_table p = []"
proof -
  have p: "p = \<lparr>disk_manager = d,
    frames = replicate n \<lparr>frame_page = Page, pin_count = 0, is_dirty = False\<rparr>,
    page_table = [], free_frames = rev [0..<n], lru = [], lru_positions = replicate n False\<rparr>"
    using assms(2) by (simp add: BufferPoolManager_def)
  have "\<not> mapped p i" for i by (simp add: p mapped_def)
  then show "wf_pool {} p"
    using assms(1) by (simp add: wf_pool_def wf_frames_def wf_table_def wf_free_def wf_lru_def
        wf_sync_def synced_def p Page_def ResetMemory_def)
  show "pins p q = 0" "length (frames p) = n" "disk_manager p = d" "page_table p = []"
    by (simp_all add: p pins_def)
qed

lemma demo_pool_init: "BufferPoolManager 2 (Some demo_disk) = Inr demo_pool"
  by (simp add: BufferPoolManager_def demo_pool_def numeral_2_eq_2)

lemma demo_disk_wf: "wf_disk demo_disk"
  by (simp add: wf_disk_def demo_disk_def)

lemma demo_pool_wf [simp]: "wf_pool {} demo_pool" "quiescent demo_pool"
  using initial_pool_wf [OF demo_disk_wf demo_pool_init]
  by (auto simp: quiescent_def demo_pool_def)

lemma demo_allocated [simp]: "allocated demo_pool = {0, 1, 2}"
  by (auto simp: demo_pool_def demo_disk_def live_def)

lemma demo_pool_sel [simp]: "page_table demo_pool = []" "free_frames demo_pool = [1, 0]"
  by (simp_all add: demo_pool_def)

lemma demo_fetch: "\<exists>p'. FetchPage 1 demo_pool = (Inr (Some 0), p') \<and> page_table p' = [(1, 0)] \<and>
    pin_count (frames p' ! 0) = 1"
  by (simp add: FetchPage_def AcquireFrame_def run demo_pool_def demo_disk_def on_disk_def
      ReadPage_disk_page set_frame_def emplace_def INVALID_PAGE_ID_def numeral_2_eq_2)







text \<open>
  C3. \<open>FetchPage\<close> of an allocated page returns a frame that holds exactly this page with
  its abstract contents, pins it once more, and changes the contents of no page, even when
  it has to evict another page to make room.
\<close>

theorem fetch_returns_contents:
  assumes wf: "wf_pool {} p" and q: "q \<in> allocated p" and f: "FetchPage q p = (Inr (Some i), p')"
  shows "data_of p' i = view p q \<and> holds p' i = q \<and> pins p' q = pins p q + 1 \<and>
    (\<forall>r\<ge>0. view p' r = view p r)"
proof (rule FetchPage_spec [OF wf q])
  fix j p''
  assume "FetchPage q p = (Inr (Some j), p'')" "wf_pool {} p''" "cached p'' q = Some j"
    "page_effect q (view p q) (pins p q + 1) p p''"
  then have s: "wf_pool {} p'" "cached p' q = Some i" "page_effect q (view p q) (pins p q + 1) p p'"
    using f by auto
  have "view p' q = data_of p' i" using s(2) by (simp add: view_def)
  with s(3) wf_tableD(2) [OF wf_poolD(3) [OF s(1)] s(2)] allocated_range(1) [OF wf q]
  show ?thesis by (auto simp: page_effect_def)
qed (use f in auto)

theorem fetch_returns_contents_witness:
  "\<exists>p'. FetchPage 1 demo_pool = (Inr (Some 0), p') \<and> data_of p' 0 = view demo_pool 1 \<and> holds p' 0 = 1"
  using demo_fetch fetch_returns_contents [of demo_pool 1 0] by auto

text \<open>
  C4. \<open>FetchPage\<close> of an allocated page returns \<open>nullptr\<close> exactly when the page is not
  cached and every frame holds a pinned page.
\<close>

theorem fetch_null_iff:
  assumes wf: "wf_pool {} p" and q: "q \<in> allocated p"
  shows "fst (FetchPage q p) = Inr None \<longleftrightarrow>
    cached p q = None \<and> (\<forall>i < length (frames p). \<exists>r. cached p r = Some i \<and> 0 < pins p r)"
proof (rule FetchPage_spec [OF wf q])
  fix i p'
  assume f: "FetchPage q p = (Inr (Some i), p')" "wf_pool {} p'" "cached p' q = Some i"
    "page_effect q (view p q) (pins p q + 1) p p'"
  note wfD' = wf_poolD [OF f(2)]
  have "\<not> (\<forall>i < length (frames p). \<exists>r. cached p r = Some i \<and> 0 < pins p r)" if "cached p q = None"
  proof
    assume full: "\<forall>i < length (frames p). \<exists>r. cached p r = Some i \<and> 0 < pins p r"
    have "i < length (frames p)" using wf_tableD(1) [OF wfD'(3) f(3)] f(4) by (simp add: page_effect_def)
    with full obtain r where r: "cached p r = Some i" "0 < pins p r" by blast
    then have "r \<noteq> q" using that by auto
    moreover have "0 \<le> r" using wf_tableD(3) [OF wf_poolD(3) [OF wf] r(1)] by (simp add: live_def)
    ultimately have "cached p' r = Some i" using r f(4) by (simp add: page_effect_def)
    with cached_inj [OF wfD'(3) _ f(3)] \<open>r \<noteq> q\<close> show False by blast
  qed
  then show ?thesis using f(1) by auto
qed auto

theorem fetch_null_iff_witness:
  "fst (FetchPage 1 demo_pool) \<noteq> Inr None \<and>
   \<not> (\<forall>i < length (frames demo_pool). \<exists>r. cached demo_pool r = Some i \<and> 0 < pins demo_pool r)"
  using demo_fetch fetch_null_iff [of demo_pool 1] by auto

text \<open>
  C5. Pointer stability: while a page is pinned, no call of \<open>FetchPage\<close> or \<open>NewPage\<close> for
  other pages moves it to another frame, evicts it or changes its contents.
\<close>

theorem pinned_page_stays:
  assumes wf: "wf_pool {} p" and r: "pins p r \<noteq> 0"
    and call: "(q \<in> allocated p \<and> q \<noteq> r \<and> FetchPage q p = (Inr x, p')) \<or> NewPage True p = (Inr y, p')"
  shows "cached p' r = cached p r \<and> view p' r = view p r \<and> pins p' r = pins p r"
proof -
  obtain i where i: "cached p r = Some i" using r by (auto simp: pins_def split: option.splits)
  have r0: "0 \<le> r" and al: "r \<in> allocated p"
    using wf_tableD(3) [OF wf_poolD(3) [OF wf] i] by (auto simp: live_def)
  from call show ?thesis
  proof
    assume a: "q \<in> allocated p \<and> q \<noteq> r \<and> FetchPage q p = (Inr x, p')"
    show ?thesis
      by (rule FetchPage_spec [OF wf conjunct1 [OF a]]) (use a r r0 in \<open>auto simp: page_effect_def\<close>)
  next
    assume a: "NewPage True p = (Inr y, p')"
    show ?thesis
    proof (rule NewPage_spec [OF wf])
      fix i q p''
      assume n: "NewPage True p = (Inr (Some (i, q)), p'')" "q \<notin> allocated p" "others_same q p p''"
      have "q \<noteq> r" using n(2) al by blast
      then show ?thesis using n a r r0 by (auto simp: others_same_def)
    qed (use a in auto)
  qed
qed

theorem pinned_page_stays_witness:
  "\<exists>p1 y p'. FetchPage 1 demo_pool = (Inr (Some 0), p1) \<and> NewPage True p1 = (Inr y, p') \<and>
     cached p' 1 = Some 0"
proof -
  obtain p1 where p1: "FetchPage 1 demo_pool = (Inr (Some 0), p1)" "page_table p1 = [(1, 0)]"
    "pin_count (frames p1 ! 0) = 1"
    using demo_fetch by blast
  have wf1: "wf_pool {} p1" by (rule FetchPage_spec [of demo_pool 1]) (use p1 in auto)
  have pn: "pins p1 1 \<noteq> 0" using p1 by (simp add: pins_def)
  have sp: "space p1 = space demo_pool"
    by (rule FetchPage_spec [of demo_pool 1]) (use p1 in \<open>auto simp: page_effect_def\<close>)
  have "\<exists>y p'. NewPage True p1 = (Inr y, p')"
    by (rule NewPage_spec [OF wf1]) (use sp in \<open>auto simp: room_def demo_pool_def demo_disk_def\<close>)
  then obtain y p' where n: "NewPage True p1 = (Inr y, p')" by blast
  from pinned_page_stays [OF wf1 pn disjI2 [OF n]] p1 n show ?thesis by auto
qed



text \<open>
  C7. A request for a negative page id other than \<open>INVALID_PAGE_ID\<close> throws after a frame has
  been taken from the free or LRU list: the frame is then in no list and in no page table
  entry, so the pool has lost it.
\<close>

theorem fetch_negative_loses_frame:
  assumes wf: "wf_pool {} p" and q: "q < -1" and room: "free_frames p \<noteq> [] \<or> lru p \<noteq> []"
  shows "\<exists>i p'. FetchPage q p = (Inl (Runtime_Error ''invalid page read request''), p') \<and>
    i < length (frames p') \<and> i \<notin> set (free_frames p') \<and> i \<notin> set (lru p') \<and> \<not> mapped p' i"
proof -
  have c: "cached p q = None"
    using wf_tableD(3) [OF wf_poolD(3) [OF wf], of q] q by (cases "cached p q") (auto simp: live_def)
  show ?thesis
  proof (rule AcquireFrame_spec [OF wf])
    assume "\<forall>i < length (frames p). \<exists>q. cached p q = Some i \<and> 0 < pins p q"
      and full: "AcquireFrame p = (Inr (length (frames p)), p)"
    then have "free_frames p = []"
      using wf_poolD(4) [OF wf] AcquireFrame_free [OF wf] by fastforce
    moreover have "lru p = []"
    proof (rule ccontr)
      assume "lru p \<noteq> []"
      then have "last (lru p) \<in> set (lru p)" by simp
      moreover have "last (lru p) = length (frames p)"
        by (rule AcquireFrame_evict [OF wf \<open>free_frames p = []\<close> \<open>lru p \<noteq> []\<close>]) (use full in simp)
      ultimately show False
        using wf_poolD(3,5) [OF wf] by (auto simp: wf_lru_def mapped_def dest: wf_tableD(1))
    qed
    ultimately show ?thesis using room by simp
  next
    fix i p'
    assume acq: "AcquireFrame p = (Inr i, p')" "i < length (frames p)" "wf_pool {i} p'" "same_pages p p'"
    have n: "length (frames p') = length (frames p)" using acq(4) by (simp add: same_pages_def)
    have "FetchPage q p = (Inl (Runtime_Error ''invalid page read request''), p')"
      using q c acq(1,2) n
      by (simp add: FetchPage_def INVALID_PAGE_ID_def run on_disk_def ReadPage_def)
    moreover have "i \<notin> set (free_frames p')" "\<not> mapped p' i" "i \<notin> set (lru p')"
      using wf_poolD(4,5) [OF acq(3)] acq(2) n by (auto simp: wf_free_def wf_lru_def)
    ultimately show ?thesis using acq(2) n by auto
  qed
qed

theorem fetch_negative_loses_frame_witness:
  "\<exists>p'. FetchPage (-2) demo_pool = (Inl (Runtime_Error ''invalid page read request''), p')"
  using fetch_negative_loses_frame [of demo_pool "-2"] by auto

end
