(* ===== verification/BPlus_Node.thy ===== *)
theory BPlus_Node
  imports Buffer_Pool_Spec
begin

text \<open>
  The nodes of the B+ tree (\<open>src/src/storage/bplus_tree_node.h\<close>) and their page format
  (\<open>SerializeNode\<close> and \<open>DeserializeNode\<close> of \<open>src/src/storage/bplus_tree.cpp\<close>): a header
  of 21 bytes, the keys, and then the values of a leaf or the children of an internal node.
  The keys and values are 64-bit, the page ids 32-bit integers.
\<close>

section \<open>Nodes\<close>

definition MAX_KEYS :: nat where
  "MAX_KEYS = 4"

record node =
  is_leaf :: bool
  page_id :: int
  parent_id :: int
  keys :: "int list"
  "values" :: "int list"
  children :: "int list"
  next_leaf :: int

text \<open>The default member initializers.\<close>

definition BPlusTreeNode :: node where
  "BPlusTreeNode = \<lparr>is_leaf = True, page_id = INVALID_PAGE_ID, parent_id = INVALID_PAGE_ID,
     keys = [], values = [], children = [], next_leaf = INVALID_PAGE_ID\<rparr>"

section \<open>The page format\<close>

definition kNodeMagic :: int where
  "kNodeMagic = 0x51444231"

definition SerializeNode :: "node \<Rightarrow> bytes res" where
  "SerializeNode nd =
     (if length (keys nd) > MAX_KEYS \<or>
         (is_leaf nd \<and> length (values nd) \<noteq> length (keys nd)) \<or>
         (\<not> is_leaf nd \<and> length (children nd) \<noteq> length (keys nd) + 1)
      then Inl (Runtime_Error ''invalid B+ tree node'')
      else
        Inr (fst (fold put_bytes
          ([le_bytes 4 kNodeMagic,
            le_bytes 1 (if is_leaf nd then 1 else 0),
            le_bytes 4 (page_id nd),
            le_bytes 4 (parent_id nd),
            le_bytes 4 (next_leaf nd),
            le_bytes 4 (int (length (keys nd)))] @
           map (le_bytes 8) (keys nd) @
           (if is_leaf nd then map (le_bytes 8) (values nd) else map (le_bytes 4) (children nd)))
          (replicate PAGE_SIZE 0, 0))))"

text \<open>The loops that read \<open>n\<close> consecutive values of \<open>w\<close> bytes.\<close>

definition read_values :: "bytes \<Rightarrow> nat \<Rightarrow> nat \<Rightarrow> nat \<Rightarrow> int list" where
  "read_values bs off w n = map (\<lambda>i. le_sint (read_at bs (off + w * i) w)) [0..<n]"

definition DeserializeNode :: "bytes \<Rightarrow> node res" where
  "DeserializeNode bs =
     (if le_uint (read_at bs 0 4) \<noteq> kNodeMagic
      then Inl (Runtime_Error ''invalid B+ tree page'')
      else
        let leaf = (le_uint (read_at bs 4 1) \<noteq> 0);
            pid = le_sint (read_at bs 5 4);
            parent = le_sint (read_at bs 9 4);
            nxt = le_sint (read_at bs 13 4);
            key_count = nat (le_uint (read_at bs 17 4))
        in if key_count > MAX_KEYS then Inl (Runtime_Error ''invalid B+ tree key count'')
           else Inr (BPlusTreeNode\<lparr>is_leaf := leaf, page_id := pid, parent_id := parent, next_leaf := nxt,
             keys := read_values bs 21 8 key_count,
             values := (if leaf then read_values bs (21 + 8 * key_count) 8 key_count else []),
             children := (if leaf then [] else read_values bs (21 + 8 * key_count) 4 (key_count + 1))\<rparr>))"

section \<open>Which nodes the format can hold\<close>

definition node_ok :: "node \<Rightarrow> bool" where
  "node_ok nd \<longleftrightarrow> length (keys nd) \<le> MAX_KEYS \<and>
     in_i32 (page_id nd) \<and> in_i32 (parent_id nd) \<and> in_i32 (next_leaf nd) \<and>
     list_all in_i64 (keys nd) \<and>
     (if is_leaf nd
      then length (values nd) = length (keys nd) \<and> list_all in_i64 (values nd) \<and> children nd = []
      else length (children nd) = length (keys nd) + 1 \<and> list_all in_i32 (children nd) \<and> values nd = [])"

definition node_image :: "node \<Rightarrow> bytes" where
  "node_image nd = projr (SerializeNode nd)"

section \<open>The format round trip\<close>

lemma read_values_concat:
  assumes "\<And>x. length (g x) = w" and "length pre = off"
  shows "read_values (pre @ concat (map g xs) @ post) off w (length xs) = map (le_sint \<circ> g) xs"
  using assms(2)
proof (induction xs arbitrary: pre off)
  case Nil
  then show ?case by (simp add: read_values_def)
next
  case (Cons x xs)
  have "read_values (pre @ concat (map g (x # xs)) @ post) off w (length (x # xs)) =
      le_sint (read_at (pre @ g x @ concat (map g xs) @ post) off w) #
      read_values ((pre @ g x) @ concat (map g xs) @ post) (off + w) w (length xs)"
    by (simp add: read_values_def upt_conv_Cons map_Suc_upt [symmetric] o_def add.assoc del: upt_Suc)
  also have "read_at (pre @ g x @ concat (map g xs) @ post) off w = g x"
    using Cons.prems assms(1) by (intro read_at_append) auto
  finally show ?case
    using Cons.IH [of "pre @ g x" "off + w"] Cons.prems assms(1) by simp
qed

definition node_header :: "node \<Rightarrow> bytes" where
  "node_header nd = le_bytes 4 kNodeMagic @ le_bytes 1 (if is_leaf nd then 1 else 0) @
     le_bytes 4 (page_id nd) @ le_bytes 4 (parent_id nd) @ le_bytes 4 (next_leaf nd) @
     le_bytes 4 (int (length (keys nd)))"

definition node_body :: "node \<Rightarrow> bytes" where
  "node_body nd = concat (map (le_bytes 8) (keys nd)) @
     (if is_leaf nd then concat (map (le_bytes 8) (values nd)) else concat (map (le_bytes 4) (children nd)))"

lemma length_node_header [simp]: "length (node_header nd) = 21"
  by (simp add: node_header_def)

lemma length_concat_const: "(\<And>x. length (g x) = w) \<Longrightarrow> length (concat (map g xs)) = w * length xs"
  by (induction xs) auto

lemma SerializeNode_ok:
  assumes "node_ok nd"
  shows "SerializeNode nd = Inr (node_image nd)"
    and "\<exists>k. node_image nd = node_header nd @ node_body nd @ replicate k 0 \<and>
         length (node_image nd) = PAGE_SIZE"
proof -
  have len: "length (node_header nd @ node_body nd) \<le> PAGE_SIZE"
    using assms by (auto simp: node_ok_def node_body_def length_concat_const PAGE_SIZE_def MAX_KEYS_def)
  let ?L = "[le_bytes 4 kNodeMagic, le_bytes 1 (if is_leaf nd then 1 else 0), le_bytes 4 (page_id nd),
      le_bytes 4 (parent_id nd), le_bytes 4 (next_leaf nd), le_bytes 4 (int (length (keys nd)))] @
    map (le_bytes 8) (keys nd) @
    (if is_leaf nd then map (le_bytes 8) (values nd) else map (le_bytes 4) (children nd))"
  have "concat ?L = node_header nd @ node_body nd"
    by (simp add: node_header_def node_body_def)
  moreover have "SerializeNode nd = Inr (fst (fold put_bytes ?L (replicate PAGE_SIZE 0, 0)))"
    using assms unfolding SerializeNode_def node_ok_def
    by (intro if_not_P) (auto split: if_splits)
  ultimately have s: "SerializeNode nd = Inr ((node_header nd @ node_body nd) @
      replicate (PAGE_SIZE - length (node_header nd @ node_body nd)) 0)"
    by (simp only: fold_put_bytes_from_start fst_conv)
  then show "SerializeNode nd = Inr (node_image nd)" by (simp add: node_image_def)
  show "\<exists>k. node_image nd = node_header nd @ node_body nd @ replicate k 0 \<and>
         length (node_image nd) = PAGE_SIZE"
    using s len by (auto simp: node_image_def)
qed

lemma node_header_reads:
  assumes "node_ok nd" and "bs = node_header nd @ rest"
  shows "le_uint (read_at bs 0 4) = kNodeMagic" and "le_uint (read_at bs 4 1) \<noteq> 0 \<longleftrightarrow> is_leaf nd"
    and "le_sint (read_at bs 5 4) = page_id nd" and "le_sint (read_at bs 9 4) = parent_id nd"
    and "le_sint (read_at bs 13 4) = next_leaf nd"
    and "le_uint (read_at bs 17 4) = int (length (keys nd))"
proof -
  have "in_u32 (int (length (keys nd)))" "in_u32 kNodeMagic"
    using assms by (auto simp: node_ok_def MAX_KEYS_def in_u32_def kNodeMagic_def)
  with assms show "le_uint (read_at bs 0 4) = kNodeMagic" and "le_uint (read_at bs 4 1) \<noteq> 0 \<longleftrightarrow> is_leaf nd"
    and "le_sint (read_at bs 5 4) = page_id nd" and "le_sint (read_at bs 9 4) = parent_id nd"
    and "le_sint (read_at bs 13 4) = next_leaf nd"
    and "le_uint (read_at bs 17 4) = int (length (keys nd))"
    by (simp_all add: node_header_def read_at_skip read_at_front node_ok_def le_uint_byte
        del: le_bytes.simps)
qed

lemma map_to_i64: "list_all in_i64 xs \<Longrightarrow> map (le_sint \<circ> le_bytes 8) xs = xs"
  by (induction xs) (auto simp del: le_bytes.simps)

lemma map_to_i32: "list_all in_i32 xs \<Longrightarrow> map (le_sint \<circ> le_bytes 4) xs = xs"
  by (induction xs) (auto simp del: le_bytes.simps)

lemma node_body_reads:
  assumes "node_ok nd" and "bs = node_header nd @ node_body nd @ rest"
  defines "n \<equiv> length (keys nd)"
  shows "read_values bs 21 8 n = keys nd"
    and "is_leaf nd \<Longrightarrow> read_values bs (21 + 8 * n) 8 n = values nd"
    and "\<not> is_leaf nd \<Longrightarrow> read_values bs (21 + 8 * n) 4 (n + 1) = children nd"
proof -
  let ?pre = "node_header nd @ concat (map (le_bytes 8) (keys nd))"
  have pre: "length ?pre = 21 + 8 * n" by (simp add: n_def length_concat_const)
  show "read_values bs 21 8 n = keys nd"
    using read_values_concat [of "le_bytes 8" 8 "node_header nd" 21 "keys nd"] assms
    by (simp add: node_body_def map_to_i64 node_ok_def)
  show "read_values bs (21 + 8 * n) 8 n = values nd" if "is_leaf nd"
    using read_values_concat [of "le_bytes 8" 8, OF _ pre, of "values nd" rest] assms that
    by (simp add: node_body_def map_to_i64 node_ok_def)
  show "read_values bs (21 + 8 * n) 4 (n + 1) = children nd" if "\<not> is_leaf nd"
    using read_values_concat [of "le_bytes 4" 4, OF _ pre, of "children nd" rest] assms that
    by (simp add: node_body_def map_to_i32 node_ok_def)
qed

lemma node_image_reads:
  assumes "node_ok nd"
  shows "DeserializeNode (node_image nd) = Inr nd" and "length (node_image nd) = PAGE_SIZE"
proof -
  obtain k where img: "node_image nd = node_header nd @ node_body nd @ replicate k 0"
    "length (node_image nd) = PAGE_SIZE"
    using SerializeNode_ok(2) [OF assms] by blast
  note hd = node_header_reads [OF assms img(1)]
  note bd = node_body_reads [OF assms img(1)]
  show "DeserializeNode (node_image nd) = Inr nd"
    using assms unfolding DeserializeNode_def hd Let_def
    by (auto simp: bd bd(3) [simplified] node_ok_def BPlusTreeNode_def)
  show "length (node_image nd) = PAGE_SIZE" by (rule img(2))
qed

text \<open>
  C8. Round trip of the page format: every node within the format's limits is written as
  one page of exactly \<open>PAGE_SIZE\<close> bytes, and reading that page gives the node back.
\<close>

theorem node_round_trip:
  assumes "node_ok nd"
  shows "\<exists>bs. SerializeNode nd = Inr bs \<and> length bs = PAGE_SIZE \<and> DeserializeNode bs = Inr nd"
  using SerializeNode_ok(1) [OF assms] node_image_reads [OF assms] by simp

theorem node_round_trip_witness:
  "\<exists>bs. SerializeNode (BPlusTreeNode\<lparr>page_id := 7, keys := [-3, 42], values := [1, 2]\<rparr>) = Inr bs \<and>
     DeserializeNode bs = Inr (BPlusTreeNode\<lparr>page_id := 7, keys := [-3, 42], values := [1, 2]\<rparr>)"
  using node_round_trip [of "BPlusTreeNode\<lparr>page_id := 7, keys := [-3, 42], values := [1, 2]\<rparr>"]
  by (auto simp: node_ok_def BPlusTreeNode_def MAX_KEYS_def in_i32_def in_i64_def INVALID_PAGE_ID_def)

end
