(* ===== verification/BPlus_Tree.thy ===== *)
theory BPlus_Tree
  imports BPlus_Node
begin

text \<open>
  The operations of the B+ tree (\<open>src/src/storage/bplus_tree.{h,cpp}\<close>) over the buffer pool.
  The state is the pool and the root page id. Every operation reads and writes whole nodes
  through \<open>ReadNode\<close>, \<open>WriteNode\<close>, \<open>CreateNode\<close> and \<open>DeletePage\<close>, in the order of the
  source, and an index outside a vector is \<open>Undefined\<close>.

  The loops that follow child, parent or next pointers are bounded by the number of page
  ids ever handed out (\<open>fuel\<close>): a path without repetition is not longer, and a run that
  needs more is \<open>Out_Of_Fuel\<close>. \<open>std::lower_bound\<close> and \<open>std::upper_bound\<close> are the index of
  the first key that is not less, or greater, than the argument, which is what they return
  on sorted keys. The contract that the operations rely on is the locale \<open>node_store\<close>.
\<close>

section \<open>State and vector accesses\<close>

record btree =
  bpm :: pool
  root_page_id :: int

definition BPlusTree :: "pool option \<Rightarrow> btree res" where
  "BPlusTree p = (case p of
     None \<Rightarrow> Inl (Invalid_Argument ''buffer pool manager must not be null'')
   | Some p \<Rightarrow> Inr \<lparr>bpm = p, root_page_id = INVALID_PAGE_ID\<rparr>)"

definition on_pool :: "(pool, 'a) comp \<Rightarrow> (btree, 'a) comp" where
  "on_pool m = zoomM bpm (\<lambda>p t. t\<lparr>bpm := p\<rparr>) m"

definition fuel :: "btree \<Rightarrow> nat" where
  "fuel t = Suc (nat (next_page_id (disk_manager (bpm t))))"

text \<open>\<open>v[i]\<close>, \<open>v[i] = x\<close>, \<open>v.insert(begin + i, x)\<close> and \<open>v.erase(begin + i)\<close>.\<close>

definition nthM :: "'a list \<Rightarrow> nat \<Rightarrow> ('s, 'a) comp" where
  "nthM xs i = (if i < length xs then returnM (xs ! i) else throwM Undefined)"

definition setM :: "'a list \<Rightarrow> nat \<Rightarrow> 'a \<Rightarrow> ('s, 'a list) comp" where
  "setM xs i x = (if i < length xs then returnM (xs[i := x]) else throwM Undefined)"

definition insertM :: "'a list \<Rightarrow> nat \<Rightarrow> 'a \<Rightarrow> ('s, 'a list) comp" where
  "insertM xs i x = (if i \<le> length xs then returnM (insert_at i x xs) else throwM Undefined)"

definition eraseM :: "'a list \<Rightarrow> nat \<Rightarrow> ('s, 'a list) comp" where
  "eraseM xs i = (if i < length xs then returnM (remove_at i xs) else throwM Undefined)"

section \<open>Nodes in pages\<close>

definition ReadNode :: "int \<Rightarrow> (btree, node) comp" where
  "ReadNode q = on_pool (
     bindM (FetchPage q) (\<lambda>r. case r of
       None \<Rightarrow> throwM (Runtime_Error ''buffer pool has no evictable frame'')
     | Some i \<Rightarrow>
         bindM (frame_data i) (\<lambda>bs.
         bindM (liftM (DeserializeNode bs)) (\<lambda>nd.
         thenM (UnpinPage q False) (returnM nd)))))"

definition WriteNode :: "node \<Rightarrow> (btree, unit) comp" where
  "WriteNode nd = on_pool (
     bindM (FetchPage (page_id nd)) (\<lambda>r. case r of
       None \<Rightarrow> throwM (Runtime_Error ''buffer pool has no evictable frame'')
     | Some i \<Rightarrow>
         bindM (liftM (SerializeNode nd)) (\<lambda>bs.
         thenM (set_frame_data i bs) (
         thenM (UnpinPage (page_id nd) True) (returnM ())))))"

definition CreateNode :: "node \<Rightarrow> (btree, int) comp" where
  "CreateNode nd = on_pool (
     bindM (NewPage True) (\<lambda>r. case r of
       None \<Rightarrow> throwM (Runtime_Error ''buffer pool has no free frame'')
     | Some (i, q) \<Rightarrow>
         bindM (liftM (SerializeNode (nd\<lparr>page_id := q\<rparr>))) (\<lambda>bs.
         thenM (set_frame_data i bs) (
         thenM (UnpinPage q True) (returnM q)))))"

definition DeleteNode :: "int \<Rightarrow> (btree, bool) comp" where
  "DeleteNode q = on_pool (DeletePage q)"

section \<open>Searching\<close>

fun find_leaf_loop :: "nat \<Rightarrow> int \<Rightarrow> int \<Rightarrow> (btree, int) comp" where
  "find_leaf_loop 0 current key = throwM Out_Of_Fuel"
| "find_leaf_loop (Suc n) current key =
     (if current = INVALID_PAGE_ID then returnM INVALID_PAGE_ID
      else
        bindM (ReadNode current) (\<lambda>nd.
        if is_leaf nd then returnM current
        else
          bindM (nthM (children nd) (upper_bound (keys nd) key)) (\<lambda>child.
          find_leaf_loop n child key)))"

definition FindLeaf :: "int \<Rightarrow> (btree, int) comp" where
  "FindLeaf key =
     bindM (getM fuel) (\<lambda>n. bindM (getM root_page_id) (\<lambda>root. find_leaf_loop n root key))"

text \<open>\<open>Search\<close>: the value that is stored through \<open>out_value\<close>, or \<open>None\<close> for \<open>false\<close>.\<close>

definition Search :: "int \<Rightarrow> (btree, int option) comp" where
  "Search key =
     bindM (getM root_page_id) (\<lambda>root.
     if root = INVALID_PAGE_ID then returnM None
     else
       bindM (FindLeaf key) (\<lambda>q.
       bindM (ReadNode q) (\<lambda>leaf.
       let position = lower_bound (keys leaf) key in
       if position = length (keys leaf) \<or> keys leaf ! position \<noteq> key then returnM None
       else bindM (nthM (values leaf) position) (\<lambda>v. returnM (Some v)))))"

text \<open>
  The loops of \<open>RangeScan\<close>: the inner loop over one leaf returns the pairs it emits and
  whether the scan goes on to the next leaf.
\<close>

fun scan_leaf :: "int \<Rightarrow> int \<Rightarrow> (int \<times> int) list \<Rightarrow> (int \<times> int) list \<times> bool" where
  "scan_leaf lo hi [] = ([], True)"
| "scan_leaf lo hi ((k, v) # kvs) =
     (if k < lo then scan_leaf lo hi kvs
      else if k > hi then ([], False)
      else (case scan_leaf lo hi kvs of (out, go_on) \<Rightarrow> ((k, v) # out, go_on)))"

fun range_scan_loop :: "nat \<Rightarrow> int \<Rightarrow> int \<Rightarrow> int \<Rightarrow> (btree, (int \<times> int) list) comp" where
  "range_scan_loop 0 q lo hi = throwM Out_Of_Fuel"
| "range_scan_loop (Suc n) q lo hi =
     (if q = INVALID_PAGE_ID then returnM []
      else
        bindM (ReadNode q) (\<lambda>leaf.
        case scan_leaf lo hi (zip (keys leaf) (values leaf)) of (out, go_on) \<Rightarrow>
          if \<not> go_on then returnM out
          else bindM (range_scan_loop n (next_leaf leaf) lo hi) (\<lambda>rest. returnM (out @ rest))))"

text \<open>\<open>RangeScan\<close> appends to the vector \<open>*out\<close>; \<open>None\<close> is a null pointer.\<close>

definition RangeScan :: "int \<Rightarrow> int \<Rightarrow> (int \<times> int) list option \<Rightarrow> (btree, (int \<times> int) list option) comp" where
  "RangeScan lo hi out =
     bindM (getM root_page_id) (\<lambda>root.
     if out = None \<or> root = INVALID_PAGE_ID \<or> lo > hi then returnM out
     else
       bindM (FindLeaf lo) (\<lambda>q.
       bindM (getM fuel) (\<lambda>n.
       bindM (range_scan_loop n q lo hi) (\<lambda>found. returnM (map_option (\<lambda>xs. xs @ found) out)))))"

fun first_key_loop :: "nat \<Rightarrow> node \<Rightarrow> (btree, int) comp" where
  "first_key_loop 0 nd = throwM Out_Of_Fuel"
| "first_key_loop (Suc n) nd =
     (if \<not> is_leaf nd then
        bindM (nthM (children nd) 0) (\<lambda>child. bindM (ReadNode child) (first_key_loop n))
      else nthM (keys nd) 0)"

definition FirstKey :: "int \<Rightarrow> (btree, int) comp" where
  "FirstKey q = bindM (ReadNode q) (\<lambda>nd. bindM (getM fuel) (\<lambda>n. first_key_loop n nd))"

section \<open>Maintenance of parents and separators\<close>

definition SetChildrenParent :: "int list \<Rightarrow> int \<Rightarrow> (btree, unit) comp" where
  "SetChildrenParent cs parent =
     foreachM cs (\<lambda>c. bindM (ReadNode c) (\<lambda>child. WriteNode (child\<lparr>parent_id := parent\<rparr>)))"

fun propagate_loop :: "nat \<Rightarrow> int \<Rightarrow> (btree, unit) comp" where
  "propagate_loop 0 current = throwM Out_Of_Fuel"
| "propagate_loop (Suc n) current =
     bindM (getM root_page_id) (\<lambda>root.
     if current = root then returnM ()
     else
       bindM (ReadNode current) (\<lambda>nd.
       bindM (ReadNode (parent_id nd)) (\<lambda>parent.
       let child_index = find_index (children parent) current in
       if child_index > 0 then
         bindM (FirstKey current) (\<lambda>k.
         bindM (setM (keys parent) (child_index - 1) k) (\<lambda>ks.
         WriteNode (parent\<lparr>keys := ks\<rparr>)))
       else propagate_loop n (page_id parent))))"

definition PropagateMinimumChange :: "int \<Rightarrow> (btree, unit) comp" where
  "PropagateMinimumChange q = bindM (getM fuel) (\<lambda>n. propagate_loop n q)"

section \<open>Insertion\<close>

fun insert_into_parent :: "nat \<Rightarrow> node \<Rightarrow> int \<Rightarrow> node \<Rightarrow> (btree, unit) comp" where
  "insert_into_parent 0 left separator right = throwM Out_Of_Fuel"
| "insert_into_parent (Suc n) left separator right =
     (if parent_id left = INVALID_PAGE_ID then
        bindM (CreateNode (BPlusTreeNode\<lparr>is_leaf := False, keys := [separator],
                             children := [page_id left, page_id right]\<rparr>)) (\<lambda>root.
        thenM (modifyM (\<lambda>t. t\<lparr>root_page_id := root\<rparr>)) (
        thenM (WriteNode (left\<lparr>parent_id := root\<rparr>)) (
        WriteNode (right\<lparr>parent_id := root\<rparr>))))
      else
        bindM (ReadNode (parent_id left)) (\<lambda>parent.
        let child_index = find_index (children parent) (page_id left) in
        bindM (insertM (keys parent) child_index separator) (\<lambda>ks.
        bindM (insertM (children parent) (child_index + 1) (page_id right)) (\<lambda>cs.
        thenM (WriteNode (right\<lparr>parent_id := page_id parent\<rparr>)) (
        if length ks \<le> MAX_KEYS then WriteNode (parent\<lparr>keys := ks, children := cs\<rparr>)
        else
          let middle = length ks div 2;
              promoted_key = ks ! middle;
              new_right = BPlusTreeNode\<lparr>is_leaf := False, parent_id := parent_id parent,
                            keys := drop (middle + 1) ks, children := drop (middle + 1) cs\<rparr>;
              parent' = parent\<lparr>keys := take middle ks, children := take (middle + 1) cs\<rparr>
          in
          bindM (CreateNode new_right) (\<lambda>q.
          thenM (SetChildrenParent (children new_right) q) (
          thenM (WriteNode parent') (
          insert_into_parent n parent' promoted_key (new_right\<lparr>page_id := q\<rparr>)))))))))"

definition InsertIntoParent :: "node \<Rightarrow> int \<Rightarrow> node \<Rightarrow> (btree, unit) comp" where
  "InsertIntoParent left separator right =
     bindM (getM fuel) (\<lambda>n. insert_into_parent n left separator right)"

definition Insert :: "int \<Rightarrow> int \<Rightarrow> (btree, bool) comp" where
  "Insert key val =
     bindM (getM root_page_id) (\<lambda>root.
     if root = INVALID_PAGE_ID then
       bindM (CreateNode (BPlusTreeNode\<lparr>keys := [key], values := [val]\<rparr>)) (\<lambda>q.
       thenM (modifyM (\<lambda>t. t\<lparr>root_page_id := q\<rparr>)) (returnM True))
     else
       bindM (FindLeaf key) (\<lambda>q.
       bindM (ReadNode q) (\<lambda>leaf0.
       let index = lower_bound (keys leaf0) key in
       if index < length (keys leaf0) \<and> keys leaf0 ! index = key then returnM False
       else
         bindM (insertM (values leaf0) index val) (\<lambda>vs.
         let leaf = leaf0\<lparr>keys := insert_at index key (keys leaf0), values := vs\<rparr> in
         if length (keys leaf) \<le> MAX_KEYS then
           thenM (WriteNode leaf) (
           thenM (if index = 0 then PropagateMinimumChange (page_id leaf) else returnM ()) (
           returnM True))
         else
           let split_index = (length (keys leaf) + 1) div 2;
               right = BPlusTreeNode\<lparr>is_leaf := True, parent_id := parent_id leaf,
                         keys := drop split_index (keys leaf), values := drop split_index (values leaf),
                         next_leaf := next_leaf leaf\<rparr>
           in
           bindM (CreateNode right) (\<lambda>r.
           let leaf' = leaf\<lparr>keys := take split_index (keys leaf), values := take split_index (values leaf),
                            next_leaf := r\<rparr> in
           thenM (WriteNode leaf') (
           bindM (nthM (keys right) 0) (\<lambda>sep.
           thenM (InsertIntoParent leaf' sep (right\<lparr>page_id := r\<rparr>)) (returnM True))))))))"

section \<open>Deletion\<close>

text \<open>
  \<open>HandleInternalUnderflow\<close>: the two rotations, with the left and with the right sibling,
  and the two merges are the branches of the source.
\<close>

definition rotate_from_left :: "node \<Rightarrow> node \<Rightarrow> node \<Rightarrow> nat \<Rightarrow> (btree, unit) comp" where
  "rotate_from_left left nd parent child_index =
     bindM (nthM (keys parent) (child_index - 1)) (\<lambda>sep.
     let nd' = nd\<lparr>keys := sep # keys nd, children := last (children left) # children nd\<rparr>;
         left' = left\<lparr>keys := butlast (keys left), children := butlast (children left)\<rparr>
     in
     bindM (setM (keys parent) (child_index - 1) (last (keys left))) (\<lambda>pks.
     thenM (SetChildrenParent [hd (children nd')] (page_id nd)) (
     thenM (WriteNode left') (
     thenM (WriteNode nd') (
     WriteNode (parent\<lparr>keys := pks\<rparr>))))))"

definition rotate_from_right :: "node \<Rightarrow> node \<Rightarrow> node \<Rightarrow> nat \<Rightarrow> (btree, unit) comp" where
  "rotate_from_right nd right parent child_index =
     bindM (nthM (keys parent) child_index) (\<lambda>sep.
     let nd' = nd\<lparr>keys := keys nd @ [sep], children := children nd @ [hd (children right)]\<rparr>;
         right' = right\<lparr>keys := tl (keys right), children := tl (children right)\<rparr>
     in
     bindM (setM (keys parent) child_index (hd (keys right))) (\<lambda>pks.
     thenM (SetChildrenParent [last (children nd')] (page_id nd)) (
     thenM (WriteNode nd') (
     thenM (WriteNode right') (
     WriteNode (parent\<lparr>keys := pks\<rparr>))))))"

text \<open>Merging \<open>b\<close> into its left neighbour \<open>a\<close>; \<open>i\<close> is the index of \<open>a\<close> in the parent.\<close>

definition merge_internal :: "node \<Rightarrow> node \<Rightarrow> node \<Rightarrow> nat \<Rightarrow> (btree, unit) comp" where
  "merge_internal a b parent i =
     bindM (nthM (keys parent) i) (\<lambda>sep.
     let a' = a\<lparr>keys := keys a @ [sep] @ keys b, children := children a @ children b\<rparr> in
     bindM (eraseM (keys parent) i) (\<lambda>pks.
     bindM (eraseM (children parent) (i + 1)) (\<lambda>pcs.
     thenM (SetChildrenParent (children b) (page_id a)) (
     thenM (WriteNode a') (
     thenM (WriteNode (parent\<lparr>keys := pks, children := pcs\<rparr>)) (
     thenM (DeleteNode (page_id b)) (returnM ())))))))"

fun handle_internal_underflow :: "nat \<Rightarrow> int \<Rightarrow> (btree, unit) comp" where
  "handle_internal_underflow 0 q = throwM Out_Of_Fuel"
| "handle_internal_underflow (Suc n) q =
     bindM (ReadNode q) (\<lambda>nd.
     bindM (getM root_page_id) (\<lambda>root.
     if page_id nd = root then
       (if keys nd = [] \<and> children nd \<noteq> [] then
          thenM (modifyM (\<lambda>t. t\<lparr>root_page_id := hd (children nd)\<rparr>)) (
          bindM (ReadNode (hd (children nd))) (\<lambda>child.
          thenM (WriteNode (child\<lparr>parent_id := INVALID_PAGE_ID\<rparr>)) (
          thenM (DeleteNode (page_id nd)) (returnM ()))))
        else returnM ())
     else if length (keys nd) \<ge> MAX_KEYS div 2 then returnM ()
     else
       bindM (ReadNode (parent_id nd)) (\<lambda>parent.
       let child_index = find_index (children parent) (page_id nd);
           merge =
             (if child_index > 0 then
                bindM (nthM (children parent) (child_index - 1)) (\<lambda>l.
                bindM (ReadNode l) (\<lambda>left.
                thenM (merge_internal left nd parent (child_index - 1))
                      (handle_internal_underflow n (page_id parent))))
              else
                bindM (nthM (children parent) (child_index + 1)) (\<lambda>r.
                bindM (ReadNode r) (\<lambda>right.
                thenM (merge_internal nd right parent child_index)
                      (handle_internal_underflow n (page_id parent)))));
           try_right =
             (if child_index + 1 < length (children parent) then
                bindM (nthM (children parent) (child_index + 1)) (\<lambda>r.
                bindM (ReadNode r) (\<lambda>right.
                if length (keys right) > MAX_KEYS div 2
                then rotate_from_right nd right parent child_index
                else merge))
              else merge)
       in
       if child_index > 0 then
         bindM (nthM (children parent) (child_index - 1)) (\<lambda>l.
         bindM (ReadNode l) (\<lambda>left.
         if length (keys left) > MAX_KEYS div 2
         then rotate_from_left left nd parent child_index
         else try_right))
       else try_right)))"

definition HandleInternalUnderflow :: "int \<Rightarrow> (btree, unit) comp" where
  "HandleInternalUnderflow q = bindM (getM fuel) (\<lambda>n. handle_internal_underflow n q)"

text \<open>The branches of \<open>Delete\<close> for a leaf that has become too small.\<close>

definition borrow_from_left :: "node \<Rightarrow> node \<Rightarrow> node \<Rightarrow> nat \<Rightarrow> (btree, bool) comp" where
  "borrow_from_left left leaf parent child_index =
     (let leaf' = leaf\<lparr>keys := last (keys left) # keys leaf, values := last (values left) # values leaf\<rparr>;
          left' = left\<lparr>keys := butlast (keys left), values := butlast (values left)\<rparr>
      in
      bindM (setM (keys parent) (child_index - 1) (hd (keys leaf'))) (\<lambda>pks.
      thenM (WriteNode left') (
      thenM (WriteNode leaf') (
      thenM (WriteNode (parent\<lparr>keys := pks\<rparr>)) (
      returnM True)))))"

definition borrow_from_right :: "node \<Rightarrow> node \<Rightarrow> node \<Rightarrow> nat \<Rightarrow> (btree, bool) comp" where
  "borrow_from_right leaf right parent child_index =
     (let leaf' = leaf\<lparr>keys := keys leaf @ [hd (keys right)], values := values leaf @ [hd (values right)]\<rparr>;
          right' = right\<lparr>keys := tl (keys right), values := tl (values right)\<rparr>
      in
      bindM (setM (keys parent) child_index (hd (keys right'))) (\<lambda>pks.
      thenM (WriteNode leaf') (
      thenM (WriteNode right') (
      thenM (WriteNode (parent\<lparr>keys := pks\<rparr>)) (
      returnM True)))))"

definition merge_leaves :: "node \<Rightarrow> node \<Rightarrow> node \<Rightarrow> nat \<Rightarrow> (btree, unit) comp" where
  "merge_leaves a b parent i =
     (let a' = a\<lparr>keys := keys a @ keys b, values := values a @ values b, next_leaf := next_leaf b\<rparr> in
      bindM (eraseM (keys parent) i) (\<lambda>pks.
      bindM (eraseM (children parent) (i + 1)) (\<lambda>pcs.
      thenM (WriteNode a') (
      thenM (WriteNode (parent\<lparr>keys := pks, children := pcs\<rparr>)) (
      thenM (DeleteNode (page_id b)) (returnM ()))))))"

definition Delete :: "int \<Rightarrow> (btree, bool) comp" where
  "Delete key =
     bindM (getM root_page_id) (\<lambda>root.
     if root = INVALID_PAGE_ID then returnM False
     else
       bindM (FindLeaf key) (\<lambda>q.
       bindM (ReadNode q) (\<lambda>leaf0.
       let index = lower_bound (keys leaf0) key in
       if index = length (keys leaf0) \<or> keys leaf0 ! index \<noteq> key then returnM False
       else
         bindM (eraseM (values leaf0) index) (\<lambda>vs.
         let leaf = leaf0\<lparr>keys := remove_at index (keys leaf0), values := vs\<rparr> in
         if page_id leaf = root \<or> length (keys leaf) \<ge> MAX_KEYS div 2 then
           thenM (WriteNode leaf) (
           thenM (if keys leaf \<noteq> [] \<and> index = 0 then PropagateMinimumChange (page_id leaf)
                  else returnM ()) (
           returnM True))
         else
           bindM (ReadNode (parent_id leaf)) (\<lambda>parent.
           let child_index = find_index (children parent) (page_id leaf);
               merge =
                 (if child_index > 0 then
                    bindM (nthM (children parent) (child_index - 1)) (\<lambda>l.
                    bindM (ReadNode l) (\<lambda>left.
                    thenM (merge_leaves left leaf parent (child_index - 1)) (
                    thenM (HandleInternalUnderflow (page_id parent)) (returnM True))))
                  else
                    bindM (nthM (children parent) (child_index + 1)) (\<lambda>r.
                    bindM (ReadNode r) (\<lambda>right.
                    thenM (merge_leaves leaf right parent child_index) (
                    thenM (HandleInternalUnderflow (page_id parent)) (returnM True)))));
               try_right =
                 (if child_index + 1 < length (children parent) then
                    bindM (nthM (children parent) (child_index + 1)) (\<lambda>r.
                    bindM (ReadNode r) (\<lambda>right.
                    if length (keys right) > MAX_KEYS div 2
                    then borrow_from_right leaf right parent child_index
                    else merge))
                  else merge)
           in
           if child_index > 0 then
             bindM (nthM (children parent) (child_index - 1)) (\<lambda>l.
             bindM (ReadNode l) (\<lambda>left.
             if length (keys left) > MAX_KEYS div 2
             then borrow_from_left left leaf parent child_index
             else try_right))
           else try_right)))))"

end
