(* ===== verification/BPlus_Store.thy ===== *)
theory BPlus_Store
  imports BPlus_Tree
begin

text \<open>
  The B+ tree's nodes as a store: the contract \<open>node_store\<close> on which the proofs about the
  tree rest, its consequences, and the proof that \<open>ReadNode\<close>, \<open>WriteNode\<close>, \<open>CreateNode\<close>
  and \<open>DeletePage\<close> over the buffer pool fulfil it.
\<close>

section \<open>Nodes in a map of pages\<close>

definition node_of :: "(int \<Rightarrow> bytes option) \<Rightarrow> int \<Rightarrow> node option" where
  "node_of pg q = (case pg q of
     None \<Rightarrow> None
   | Some bs \<Rightarrow> (case DeserializeNode bs of Inl _ \<Rightarrow> None | Inr nd \<Rightarrow> Some nd))"

lemma DeserializeNode_image [simp]: "node_ok nd \<Longrightarrow> DeserializeNode (node_image nd) = Inr nd"
  using SerializeNode_ok(1) node_image_reads by simp

lemma node_of_write: "node_ok nd \<Longrightarrow> node_of (pg(q \<mapsto> node_image nd)) = (node_of pg)(q \<mapsto> nd)"
  by (auto simp: node_of_def fun_eq_iff)

lemma node_of_delete: "node_of (pg(q := None)) = (node_of pg)(q := None)"
  by (auto simp: node_of_def fun_eq_iff)

lemma node_of_page: "node_of pg q = Some nd \<Longrightarrow> \<exists>bs. pg q = Some bs \<and> DeserializeNode bs = Inr nd"
  by (auto simp: node_of_def split: option.splits sum.splits)

section \<open>The contract\<close>

text \<open>
  \<open>rest\<close> is the part of the state that the store does not touch (the root page id), \<open>bound\<close>
  a bound on the number of pages, \<open>avail\<close> how many pages can still be created.
\<close>

locale node_store =
  fixes rd :: "int \<Rightarrow> ('s, node) comp"
    and wr :: "node \<Rightarrow> ('s, unit) comp"
    and create :: "node \<Rightarrow> ('s, int) comp"
    and del :: "int \<Rightarrow> ('s, bool) comp"
    and pages :: "'s \<Rightarrow> int \<Rightarrow> bytes option"
    and avail :: "'s \<Rightarrow> nat"
    and idle :: "'s \<Rightarrow> bool"
    and rest :: "'s \<Rightarrow> 'r"
    and bound :: "'s \<Rightarrow> nat"
  assumes rd_node: "idle s \<Longrightarrow> node_of (pages s) q = Some nd \<Longrightarrow>
      \<exists>s'. rd q s = (Inr nd, s') \<and> idle s' \<and> pages s' = pages s \<and> avail s' = avail s \<and> rest s' = rest s"
    and wr_node: "idle s \<Longrightarrow> pages s (page_id nd) \<noteq> None \<Longrightarrow> node_ok nd \<Longrightarrow>
      \<exists>s'. wr nd s = (Inr (), s') \<and> idle s' \<and> pages s' = (pages s)(page_id nd \<mapsto> node_image nd) \<and>
           avail s' = avail s \<and> rest s' = rest s"
    and create_node: "idle s \<Longrightarrow> 0 < avail s \<Longrightarrow>
      (\<And>q. 0 \<le> q \<Longrightarrow> q < 2 ^ 31 \<Longrightarrow> node_ok (nd\<lparr>page_id := q\<rparr>)) \<Longrightarrow>
      \<exists>q s'. create nd s = (Inr q, s') \<and> idle s' \<and> pages s q = None \<and> 0 \<le> q \<and> q < 2 ^ 31 \<and>
           pages s' = (pages s)(q \<mapsto> node_image (nd\<lparr>page_id := q\<rparr>)) \<and>
           Suc (avail s') = avail s \<and> rest s' = rest s"
    and del_node: "idle s \<Longrightarrow> pages s q \<noteq> None \<Longrightarrow>
      \<exists>s'. del q s = (Inr True, s') \<and> idle s' \<and> pages s' = (pages s)(q := None) \<and>
           avail s' = Suc (avail s) \<and> rest s' = rest s"
    and pages_bound: "idle s \<Longrightarrow> finite (dom (pages s)) \<and> card (dom (pages s)) < bound s"
begin

text \<open>A list of different nodes in the store is shorter than the bound.\<close>

lemma distinct_nodes_bound:
  assumes "idle s" and "distinct qs" and "\<And>q. q \<in> set qs \<Longrightarrow> node_of (pages s) q \<noteq> None"
  shows "length qs < bound s"
proof -
  have "set qs \<subseteq> dom (pages s)" using assms(3) by (force simp: node_of_def split: option.splits)
  then have "card (set qs) \<le> card (dom (pages s))"
    using pages_bound [OF assms(1)] by (simp add: card_mono)
  with pages_bound [OF assms(1)] assms(2) show ?thesis by (simp add: distinct_card)
qed

text \<open>Reading a node and writing it back with a change.\<close>

lemma modify_node:
  assumes "idle s" and "node_of (pages s) q = Some nd" and "node_ok (f nd)" and "page_id (f nd) = q"
  shows "\<exists>s'. bindM (rd q) (\<lambda>x. wr (f x)) s = (Inr (), s') \<and> idle s' \<and>
           pages s' = (pages s)(q \<mapsto> node_image (f nd)) \<and> avail s' = avail s \<and> rest s' = rest s"
proof -
  obtain s1 where 1: "rd q s = (Inr nd, s1)" "idle s1" "pages s1 = pages s" "avail s1 = avail s"
    "rest s1 = rest s"
    using rd_node [OF assms(1,2)] by blast
  have "pages s1 (page_id (f nd)) \<noteq> None"
    using 1(3) assms(2,4) by (auto dest: node_of_page)
  from wr_node [OF 1(2) this assms(3)] 1 assms(4) show ?thesis by (auto simp: run)
qed

text \<open>A loop that gives a list of different nodes a new parent.\<close>

lemma reparent_nodes:
  assumes "idle s" and "distinct cs" and "in_i32 p"
    and "\<And>c. c \<in> set cs \<Longrightarrow> \<exists>nd. node_of (pages s) c = Some nd \<and> node_ok nd \<and> page_id nd = c"
  shows "\<exists>s'. foreachM cs (\<lambda>c. bindM (rd c) (\<lambda>x. wr (x\<lparr>parent_id := p\<rparr>))) s = (Inr (), s') \<and>
    idle s' \<and> avail s' = avail s \<and> rest s' = rest s \<and> dom (pages s') = dom (pages s) \<and>
    (\<forall>q. q \<notin> set cs \<longrightarrow> pages s' q = pages s q) \<and>
    (\<forall>c \<in> set cs. node_of (pages s') c = map_option (\<lambda>nd. nd\<lparr>parent_id := p\<rparr>) (node_of (pages s) c))"
  using assms
proof (induction cs arbitrary: s)
  case Nil
  then show ?case by (simp add: run)
next
  case (Cons c cs)
  obtain nd where nd: "node_of (pages s) c = Some nd" "node_ok nd" "page_id nd = c"
    using Cons.prems(4) by auto
  let ?nd = "nd\<lparr>parent_id := p\<rparr>"
  have ok: "node_ok ?nd" "page_id ?nd = c" using nd Cons.prems(3) by (auto simp: node_ok_def)
  obtain s1 where 1: "bindM (rd c) (\<lambda>x. wr (x\<lparr>parent_id := p\<rparr>)) s = (Inr (), s1)" "idle s1"
    "pages s1 = (pages s)(c \<mapsto> node_image ?nd)" "avail s1 = avail s" "rest s1 = rest s"
    using modify_node [where f = "\<lambda>x. x\<lparr>parent_id := p\<rparr>", OF Cons.prems(1) nd(1) ok] by blast
  have n1: "node_of (pages s1) q = (if q = c then Some ?nd else node_of (pages s) q)" for q
    using 1(3) ok(1) by (simp add: node_of_write)
  have notin: "c \<notin> set cs" and dist: "distinct cs" using Cons.prems(2) by auto
  have "\<And>d. d \<in> set cs \<Longrightarrow> \<exists>nd. node_of (pages s1) d = Some nd \<and> node_ok nd \<and> page_id nd = d"
    using Cons.prems(4) notin n1 by (metis list.set_intros(2))
  from Cons.IH [OF 1(2) dist Cons.prems(3) this] obtain s2 where
    2: "foreachM cs (\<lambda>c. bindM (rd c) (\<lambda>x. wr (x\<lparr>parent_id := p\<rparr>))) s1 = (Inr (), s2)"
    "idle s2" "avail s2 = avail s1" "rest s2 = rest s1" "dom (pages s2) = dom (pages s1)"
    "\<forall>q. q \<notin> set cs \<longrightarrow> pages s2 q = pages s1 q"
    "\<forall>c \<in> set cs. node_of (pages s2) c = map_option (\<lambda>nd. nd\<lparr>parent_id := p\<rparr>) (node_of (pages s1) c)"
    by blast
  have "dom (pages s1) = dom (pages s)" using nd(1) 1(3) by (auto dest: node_of_page)
  moreover have "node_of (pages s2) c = Some ?nd"
    using 2(6) notin n1 [of c] by (simp add: node_of_def)
  ultimately show ?case
    using 1 2 notin nd(1) n1 by (auto simp: run)
qed

end

section \<open>The nodes of the tree in the buffer pool\<close>

abbreviation tree_pages :: "btree \<Rightarrow> int \<Rightarrow> bytes option" where
  "tree_pages t \<equiv> pages_of (bpm t)"

abbreviation tree_idle :: "btree \<Rightarrow> bool" where
  "tree_idle t \<equiv> quiescent (bpm t)"

abbreviation tree_avail :: "btree \<Rightarrow> nat" where
  "tree_avail t \<equiv> space (bpm t)"

lemma on_pool_run: "m (bpm t) = (r, p') \<Longrightarrow> on_pool m t = (r, t\<lparr>bpm := p'\<rparr>)"
  by (simp add: on_pool_def run)

lemma on_pool_result:
  assumes "\<exists>p'. m (bpm t) = (r, p') \<and> quiescent p' \<and> pages_of p' = pg \<and> space p' = n"
  shows "\<exists>t'. on_pool m t = (r, t') \<and> tree_idle t' \<and> tree_pages t' = pg \<and> tree_avail t' = n \<and>
    root_page_id t' = root_page_id t"
proof -
  obtain p' where "m (bpm t) = (r, p')" "quiescent p'" "pages_of p' = pg" "space p' = n"
    using assms by blast
  then show ?thesis by (intro exI [of _ "t\<lparr>bpm := p'\<rparr>"]) (simp add: on_pool_run)
qed

lemma ReadNode_node:
  assumes "tree_idle t" and "node_of (tree_pages t) q = Some nd"
  shows "\<exists>t'. ReadNode q t = (Inr nd, t') \<and> tree_idle t' \<and> tree_pages t' = tree_pages t \<and>
    tree_avail t' = tree_avail t \<and> root_page_id t' = root_page_id t"
proof -
  obtain bs where bs: "tree_pages t q = Some bs" "DeserializeNode bs = Inr nd"
    using node_of_page [OF assms(2)] by blast
  show ?thesis
    unfolding ReadNode_def
    by (rule on_pool_result) (rule pool_cache.read_page [where g = DeserializeNode, OF assms(1) bs])
qed

lemma WriteNode_node:
  assumes "tree_idle t" and "tree_pages t (page_id nd) \<noteq> None" and "node_ok nd"
  shows "\<exists>t'. WriteNode nd t = (Inr (), t') \<and> tree_idle t' \<and>
    tree_pages t' = (tree_pages t)(page_id nd \<mapsto> node_image nd) \<and>
    tree_avail t' = tree_avail t \<and> root_page_id t' = root_page_id t"
proof -
  obtain v where v: "tree_pages t (page_id nd) = Some v" using assms(2) by blast
  have img: "SerializeNode nd = Inr (node_image nd)" "length (node_image nd) = PAGE_SIZE"
    using SerializeNode_ok [OF assms(3)] by auto
  show ?thesis
    unfolding WriteNode_def img(1) bindM_liftM
    by (rule on_pool_result) (rule pool_cache.write_page [OF assms(1) v img(2)])
qed

lemma CreateNode_node:
  assumes "tree_idle t" and "0 < tree_avail t"
    and ok: "\<And>q. 0 \<le> q \<Longrightarrow> q < 2 ^ 31 \<Longrightarrow> node_ok (nd\<lparr>page_id := q\<rparr>)"
  shows "\<exists>q t'. CreateNode nd t = (Inr q, t') \<and> tree_idle t' \<and> tree_pages t q = None \<and>
    0 \<le> q \<and> q < 2 ^ 31 \<and> tree_pages t' = (tree_pages t)(q \<mapsto> node_image (nd\<lparr>page_id := q\<rparr>)) \<and>
    Suc (tree_avail t') = tree_avail t \<and> root_page_id t' = root_page_id t"
proof -
  let ?img = "\<lambda>q. node_image (nd\<lparr>page_id := q\<rparr>)"
  obtain i q p1 where 1: "NewPage True (bpm t) = (Inr (Some (i, q)), p1)" "held_page q i False p1"
    "tree_pages t q = None" "0 \<le> q" "q < 2 ^ 31"
    "pages_of p1 = (tree_pages t)(q \<mapsto> replicate PAGE_SIZE 0)" "Suc (space p1) = tree_avail t"
    using pool_newp_held [OF assms(1,2)] by blast
  have img: "SerializeNode (nd\<lparr>page_id := q\<rparr>) = Inr (?img q)" "length (?img q) = PAGE_SIZE"
    using SerializeNode_ok [OF ok [OF 1(4,5)]] by auto
  obtain p2 where 2: "set_frame_data i (?img q) p1 = (Inr (), p2)" "held_page q i False p2"
    "pages_of p2 = (pages_of p1)(q \<mapsto> ?img q)" "space p2 = space p1"
    using pool_wrat [OF 1(2) img(2)] by blast
  obtain p3 where 3: "UnpinPage q True p2 = (Inr True, p3)" "quiescent p3" "pages_of p3 = pages_of p2"
    "space p3 = space p2"
    using pool_unpin_idle [OF 2(2), of True] by blast
  have "CreateNode nd t = (Inr q, t\<lparr>bpm := p3\<rparr>)"
    unfolding CreateNode_def by (rule on_pool_run) (simp add: run 1(1) 2(1) 3(1) img(1))
  with 1 2 3 show ?thesis by simp
qed

lemma DeleteNode_node:
  assumes "tree_idle t" and "tree_pages t q \<noteq> None"
  shows "\<exists>t'. DeleteNode q t = (Inr True, t') \<and> tree_idle t' \<and> tree_pages t' = (tree_pages t)(q := None) \<and>
    tree_avail t' = Suc (tree_avail t) \<and> root_page_id t' = root_page_id t"
  unfolding DeleteNode_def by (rule on_pool_result) (rule pool_cache.del_pages [OF assms])

lemma tree_pages_bound:
  assumes "tree_idle t"
  shows "finite (dom (tree_pages t)) \<and> card (dom (tree_pages t)) < fuel t"
proof -
  let ?n = "next_page_id (disk_manager (bpm t))"
  have "dom (tree_pages t) \<subseteq> {0..<?n}"
    by (auto simp: pages_of_def live_def split: if_splits)
  then have "finite (dom (tree_pages t))" and "card (dom (tree_pages t)) \<le> card {0..<?n}"
    by (rule finite_subset, simp) (rule card_mono [OF finite_atLeastLessThan_int], fact)
  then show ?thesis by (simp add: fuel_def)
qed

interpretation tree_store: node_store ReadNode WriteNode CreateNode DeleteNode tree_pages tree_avail
  tree_idle root_page_id fuel
  by unfold_locales (fact ReadNode_node WriteNode_node CreateNode_node DeleteNode_node tree_pages_bound)+

end
