(* ===== verification/BPlus_Shape.thy ===== *)
theory BPlus_Shape
  imports BPlus_Store "HOL-Library.Multiset"
begin

text \<open>
  The abstract B+ tree that a heap of nodes represents: search trees with the page ids at
  their nodes, their leaves and contents, the order of keys and separators, the occupancy of
  the nodes, and contexts (a tree with a hole at one node), by which an operation that changes
  a node and its ancestors is described.
\<close>

section \<open>Trees\<close>

datatype tree =
    Leaf int "(int \<times> int) list" int
  | Inner int "int list" "tree list"

type_synonym leaf = "int \<times> (int \<times> int) list \<times> int"

primrec tree_id :: "tree \<Rightarrow> int" where
  "tree_id (Leaf q kvs nx) = q"
| "tree_id (Inner q ks ts) = q"

primrec leaves :: "tree \<Rightarrow> leaf list" where
  "leaves (Leaf q kvs nx) = [(q, kvs, nx)]"
| "leaves (Inner q ks ts) = concat (map leaves ts)"

primrec pairs :: "leaf list \<Rightarrow> (int \<times> int) list" where
  "pairs [] = []"
| "pairs (l # ls) = fst (snd l) @ pairs ls"

definition contents :: "tree \<Rightarrow> (int \<times> int) list" where
  "contents t = pairs (leaves t)"

primrec ids :: "tree \<Rightarrow> int list" where
  "ids (Leaf q kvs nx) = [q]"
| "ids (Inner q ks ts) = q # concat (map ids ts)"

primrec height :: "tree \<Rightarrow> nat" where
  "height (Leaf q kvs nx) = 1"
| "height (Inner q ks ts) = Suc (Max (set (0 # map height ts)))"

text \<open>The nodes of a tree as they are stored, given the id of the parent of the root.\<close>

definition leaf_node :: "int \<Rightarrow> int \<Rightarrow> (int \<times> int) list \<Rightarrow> int \<Rightarrow> node" where
  "leaf_node q p kvs nx = BPlusTreeNode\<lparr>is_leaf := True, page_id := q, parent_id := p,
     keys := map fst kvs, values := map snd kvs, next_leaf := nx\<rparr>"

definition inner_node :: "int \<Rightarrow> int \<Rightarrow> int list \<Rightarrow> int list \<Rightarrow> node" where
  "inner_node q p ks cs = BPlusTreeNode\<lparr>is_leaf := False, page_id := q, parent_id := p,
     keys := ks, children := cs\<rparr>"

primrec nodes :: "tree \<Rightarrow> int \<Rightarrow> node list" where
  "nodes (Leaf q kvs nx) = (\<lambda>p. [leaf_node q p kvs nx])"
| "nodes (Inner q ks ts) = (\<lambda>p. inner_node q p ks (map tree_id ts) # concat (map (\<lambda>t. t q) (map nodes ts)))"

text \<open>A heap of nodes stores a tree.\<close>

definition stores :: "(int \<Rightarrow> node option) \<Rightarrow> int \<Rightarrow> tree \<Rightarrow> bool" where
  "stores h p t \<longleftrightarrow> (\<forall>nd \<in> set (nodes t p). h (page_id nd) = Some nd \<and> node_ok nd)"

section \<open>Order and occupancy\<close>

text \<open>Keys from \<open>lo\<close> (included) to \<open>hi\<close> (excluded); \<open>None\<close> is no bound.\<close>

definition in_range :: "int option \<Rightarrow> int option \<Rightarrow> int \<Rightarrow> bool" where
  "in_range lo hi k \<longleftrightarrow> (case lo of None \<Rightarrow> True | Some l \<Rightarrow> l \<le> k) \<and> (case hi of None \<Rightarrow> True | Some u \<Rightarrow> k < u)"

definition below :: "int option \<Rightarrow> int option \<Rightarrow> bool" where
  "below lo hi \<longleftrightarrow> (case (lo, hi) of (Some l, Some u) \<Rightarrow> l < u | _ \<Rightarrow> True)"

text \<open>
  A separator bounds the keys on its left strictly from above and those on its right from
  below; \<open>ordered_forest\<close> reads the separators and the children of a node in turn.
\<close>

fun ordered :: "int option \<Rightarrow> int option \<Rightarrow> tree \<Rightarrow> bool"
  and ordered_forest :: "int option \<Rightarrow> int list \<Rightarrow> int option \<Rightarrow> tree list \<Rightarrow> bool" where
  "ordered lo hi (Leaf q kvs nx) =
     (sorted_wrt (<) (map fst kvs) \<and> (\<forall>k \<in> set (map fst kvs). in_range lo hi k))"
| "ordered lo hi (Inner q ks ts) = ordered_forest lo ks hi ts"
| "ordered_forest lo ks hi [] = False"
| "ordered_forest lo [] hi (t # ts) = (ts = [] \<and> below lo hi \<and> ordered lo hi t)"
| "ordered_forest lo (k # ks) hi (t # ts) =
     (below lo (Some k) \<and> ordered lo (Some k) t \<and> ordered_forest (Some k) ks hi ts)"

text \<open>
  Every leaf is at the same depth \<open>d\<close> and every node below the root has at least
  \<open>MAX_KEYS / 2\<close> keys; the limit \<open>MAX_KEYS\<close> is part of \<open>node_ok\<close>.
\<close>

fun balanced :: "nat \<Rightarrow> tree \<Rightarrow> bool" where
  "balanced d (Leaf q kvs nx) = (d = 0 \<and> MAX_KEYS div 2 \<le> length kvs)"
| "balanced d (Inner q ks ts) =
     (0 < d \<and> MAX_KEYS div 2 \<le> length ks \<and> (\<forall>t \<in> set ts. balanced (d - 1) t))"

fun balanced_root :: "tree \<Rightarrow> bool" where
  "balanced_root (Leaf q kvs nx) = True"
| "balanced_root (Inner q ks ts) = (ks \<noteq> [] \<and> (\<exists>d. \<forall>t \<in> set ts. balanced d t))"

text \<open>The leaves are linked in order, the last one to nothing.\<close>

fun chain :: "leaf list \<Rightarrow> int \<Rightarrow> bool" where
  "chain [] nx = True"
| "chain [(q, kvs, n)] nx = (n = nx)"
| "chain ((q, kvs, n) # l # ls) nx = (n = fst l \<and> chain (l # ls) nx)"

section \<open>Contexts\<close>

text \<open>
  One level of a context: the id of the inner node, the separators and children to the left
  of the hole and those to the right. A context lists its levels from the hole to the root.
\<close>

record level =
  lv_id :: int
  left_keys :: "int list"
  left_trees :: "tree list"
  right_keys :: "int list"
  right_trees :: "tree list"

type_synonym ctx = "level list"

fun fill :: "level \<Rightarrow> tree \<Rightarrow> tree" where
  "fill f t = Inner (lv_id f) (left_keys f @ right_keys f) (left_trees f @ t # right_trees f)"

primrec plug :: "ctx \<Rightarrow> tree \<Rightarrow> tree" where
  "plug [] t = t"
| "plug (f # c) t = plug c (fill f t)"

definition hole_parent :: "ctx \<Rightarrow> int" where
  "hole_parent c = (case c of [] \<Rightarrow> INVALID_PAGE_ID | f # _ \<Rightarrow> lv_id f)"

primrec hole_lo :: "ctx \<Rightarrow> int option" where
  "hole_lo [] = None"
| "hole_lo (f # c) = (if left_keys f = [] then hole_lo c else Some (last (left_keys f)))"

primrec hole_hi :: "ctx \<Rightarrow> int option" where
  "hole_hi [] = None"
| "hole_hi (f # c) = (if right_keys f = [] then hole_hi c else Some (hd (right_keys f)))"

primrec leaves_left :: "ctx \<Rightarrow> leaf list" where
  "leaves_left [] = []"
| "leaves_left (f # c) = leaves_left c @ concat (map leaves (left_trees f))"

primrec leaves_right :: "ctx \<Rightarrow> leaf list" where
  "leaves_right [] = []"
| "leaves_right (f # c) = concat (map leaves (right_trees f)) @ leaves_right c"

text \<open>The ids and the nodes of a context, given the id of the tree in the hole.\<close>

primrec ctx_ids :: "ctx \<Rightarrow> int list" where
  "ctx_ids [] = []"
| "ctx_ids (f # c) = lv_id f # concat (map ids (left_trees f @ right_trees f)) @ ctx_ids c"

definition forest_nodes :: "tree list \<Rightarrow> int \<Rightarrow> node list" where
  "forest_nodes ts p = concat (map (\<lambda>t. nodes t p) ts)"

definition level_node :: "level \<Rightarrow> int \<Rightarrow> int \<Rightarrow> node" where
  "level_node f p i = inner_node (lv_id f) p (left_keys f @ right_keys f)
     (map tree_id (left_trees f) @ i # map tree_id (right_trees f))"

primrec ctx_nodes :: "ctx \<Rightarrow> int \<Rightarrow> node list" where
  "ctx_nodes [] i = []"
| "ctx_nodes (f # c) i = level_node f (hole_parent c) i #
     forest_nodes (left_trees f @ right_trees f) (lv_id f) @ ctx_nodes c (lv_id f)"

section \<open>Trees: facts\<close>

lemma nodes_Inner [simp]:
  "nodes (Inner q ks ts) p = inner_node q p ks (map tree_id ts) # forest_nodes ts q"
  by (simp add: forest_nodes_def comp_def)

declare nodes.simps(2) [simp del]

lemma forest_nodes_simps [simp]:
  "forest_nodes [] p = []" "forest_nodes (t # ts) p = nodes t p @ forest_nodes ts p"
  "forest_nodes (ts @ us) p = forest_nodes ts p @ forest_nodes us p"
  by (simp_all add: forest_nodes_def)

lemma node_fields [simp]:
  "page_id (leaf_node q p kvs nx) = q" "is_leaf (leaf_node q p kvs nx)"
  "keys (leaf_node q p kvs nx) = map fst kvs" "values (leaf_node q p kvs nx) = map snd kvs"
  "next_leaf (leaf_node q p kvs nx) = nx" "parent_id (leaf_node q p kvs nx) = p"
  "children (leaf_node q p kvs nx) = []"
  "page_id (inner_node q p ks cs) = q" "\<not> is_leaf (inner_node q p ks cs)"
  "keys (inner_node q p ks cs) = ks" "children (inner_node q p ks cs) = cs"
  "parent_id (inner_node q p ks cs) = p" "values (inner_node q p ks cs) = []"
  "next_leaf (inner_node q p ks cs) = INVALID_PAGE_ID"
  by (simp_all add: leaf_node_def inner_node_def BPlusTreeNode_def)

lemma ids_nodes: "map page_id (nodes t p) = ids t"
proof (induction t arbitrary: p)
  case (Inner q ks ts)
  then have "map page_id (forest_nodes ts q) = concat (map ids ts)"
    by (induction ts) auto
  then show ?case by simp
qed simp

lemma tree_id_in_ids [simp]: "tree_id t \<in> set (ids t)"
  by (cases t) auto

lemma ids_nonempty [simp]: "ids t \<noteq> []"
  by (cases t) auto

lemma leaves_nonempty: "ordered lo hi t \<Longrightarrow> leaves t \<noteq> []"
  and "ordered_forest lo ks hi ts \<Longrightarrow> concat (map leaves ts) \<noteq> []"
  by (induction lo hi t and lo ks hi ts rule: ordered_ordered_forest.induct) auto

lemma height_le_ids: "height t \<le> length (ids t)"
proof (induction t)
  case (Inner q ks ts)
  have "height t \<le> length (concat (map ids ts))" if "t \<in> set ts" for t
    using that Inner by (induction ts) (auto simp: trans_le_add1 trans_le_add2)
  then have "Max (set (0 # map height ts)) \<le> length (concat (map ids ts))"
    by (simp add: Max_le_iff)
  then show ?case by simp
qed simp

lemma height_child: "t \<in> set ts \<Longrightarrow> height t < height (Inner q ks ts)"
  by (simp add: less_Suc_eq_le Max_ge)

lemma height_pos [simp]: "0 < height t"
  by (cases t) auto

lemma pairs_append [simp]: "pairs (ls @ ms) = pairs ls @ pairs ms"
  by (induction ls) auto

lemma contents_simps [simp]:
  "contents (Leaf q kvs nx) = kvs" "contents (Inner q ks ts) = concat (map contents ts)"
  by (simp add: contents_def) (induction ts, auto simp: contents_def)

section \<open>Order: facts\<close>

lemma ordered_forest_length: "ordered_forest lo ks hi ts \<Longrightarrow> length ts = Suc (length ks)"
proof (induction ks arbitrary: lo ts)
  case Nil
  then show ?case by (cases ts) auto
next
  case (Cons k ks)
  then show ?case by (cases ts) auto
qed

text \<open>A forest is ordered when its two parts around a separator are.\<close>

lemma ordered_forest_append:
  assumes "length ts1 = Suc (length ks1)"
  shows "ordered_forest lo (ks1 @ k # ks2) hi (ts1 @ ts2) \<longleftrightarrow>
    ordered_forest lo ks1 (Some k) ts1 \<and> ordered_forest (Some k) ks2 hi ts2"
  using assms
proof (induction ks1 arbitrary: lo ts1)
  case Nil
  then obtain t where "ts1 = [t]" by (cases ts1) auto
  then show ?case by simp
next
  case (Cons j ks1)
  then obtain t ts where "ts1 = t # ts" by (cases ts1) auto
  with Cons show ?case by simp
qed

lemma below_trans: "below lo (Some k) \<Longrightarrow> below (Some k) hi \<Longrightarrow> below lo hi"
  by (auto simp: below_def split: option.splits)

lemma in_range_lower: "in_range (Some k) hi x \<Longrightarrow> below lo (Some k) \<Longrightarrow> in_range lo hi x"
  by (auto simp: in_range_def below_def split: option.splits)

lemma in_range_upper: "in_range lo (Some k) x \<Longrightarrow> below (Some k) hi \<Longrightarrow> in_range lo hi x"
  by (auto simp: in_range_def below_def split: option.splits)

lemma ordered_forest_below: "ordered_forest lo ks hi ts \<Longrightarrow> below lo hi"
proof (induction ks arbitrary: lo ts)
  case Nil
  then show ?case by (cases ts) auto
next
  case (Cons k ks)
  then show ?case by (cases ts) (auto intro: below_trans)
qed

lemma ordered_keys: "ordered lo hi t \<Longrightarrow> x \<in> fst ` set (contents t) \<Longrightarrow> in_range lo hi x"
  and ordered_forest_keys:
    "ordered_forest lo ks hi ts \<Longrightarrow> x \<in> fst ` set (concat (map contents ts)) \<Longrightarrow> in_range lo hi x"
proof (induction lo hi t and lo ks hi ts rule: ordered_ordered_forest.induct)
  case (5 lo k ks hi t ts)
  from 5(3) have o: "ordered lo (Some k) t" "ordered_forest (Some k) ks hi ts" "below lo (Some k)" by simp_all
  have b: "below (Some k) hi" using ordered_forest_below [OF o(2)] .
  from 5(4) consider "x \<in> fst ` set (contents t)" | "x \<in> fst ` set (concat (map contents ts))" by auto
  then show ?case
  proof cases
    case 1
    then have "in_range lo (Some k) x" using 5(1) [OF o(1)] by blast
    then show ?thesis using b in_range_upper by blast
  next
    case 2
    then have "in_range (Some k) hi x" using 5(2) [OF o(2)] by blast
    then show ?thesis using o(3) in_range_lower by blast
  qed
qed auto

lemma ordered_sorted: "ordered lo hi t \<Longrightarrow> sorted_wrt (<) (map fst (contents t))"
  and ordered_forest_sorted:
    "ordered_forest lo ks hi ts \<Longrightarrow> sorted_wrt (<) (map fst (concat (map contents ts)))"
proof (induction lo hi t and lo ks hi ts rule: ordered_ordered_forest.induct)
  case (5 lo k ks hi t ts)
  from 5(3) have o: "ordered lo (Some k) t" "ordered_forest (Some k) ks hi ts" by simp_all
  have "x < y" if "x \<in> fst ` set (contents t)" "y \<in> fst ` set (concat (map contents ts))" for x y
  proof -
    have "in_range lo (Some k) x" using ordered_keys [OF o(1) that(1)] .
    moreover have "in_range (Some k) hi y" using ordered_forest_keys [OF o(2) that(2)] .
    ultimately show "x < y" by (simp add: in_range_def)
  qed
  then show ?case using 5 by (auto simp: sorted_wrt_append)
qed auto

section \<open>Contexts: facts\<close>

definition level_ok :: "level \<Rightarrow> bool" where
  "level_ok f \<longleftrightarrow> length (left_trees f) = length (left_keys f) \<and> length (right_trees f) = length (right_keys f)"

text \<open>The order of the parts of a context.\<close>

definition ordered_left :: "int option \<Rightarrow> int list \<Rightarrow> tree list \<Rightarrow> bool" where
  "ordered_left lo ks ts \<longleftrightarrow> (if ks = [] then ts = [] else ordered_forest lo (butlast ks) (Some (last ks)) ts)"

definition ordered_right :: "int list \<Rightarrow> int option \<Rightarrow> tree list \<Rightarrow> bool" where
  "ordered_right ks hi ts \<longleftrightarrow> (if ks = [] then ts = [] else ordered_forest (Some (hd ks)) (tl ks) hi ts)"

primrec ordered_ctx :: "ctx \<Rightarrow> bool" where
  "ordered_ctx [] = True"
| "ordered_ctx (f # c) = (ordered_left (hole_lo c) (left_keys f) (left_trees f) \<and>
     ordered_right (right_keys f) (hole_hi c) (right_trees f) \<and> ordered_ctx c)"

lemma ordered_ctx_level_ok: "ordered_ctx c \<Longrightarrow> f \<in> set c \<Longrightarrow> level_ok f"
  by (induction c)
    (auto simp: ordered_left_def ordered_right_def level_ok_def split: if_splits
      dest!: ordered_forest_length)

lemma ordered_forest_hole:
  assumes "length ts1 = length ks1" and "length ts2 = length ks2"
  shows "ordered_forest lo (ks1 @ ks2) hi (ts1 @ t # ts2) \<longleftrightarrow>
    ordered_left lo ks1 ts1 \<and> ordered_right ks2 hi ts2 \<and>
    ordered_forest (if ks1 = [] then lo else Some (last ks1)) []
      (if ks2 = [] then hi else Some (hd ks2)) [t]"
proof -
  have right: "ordered_forest lo ks2 hi (t # ts2) \<longleftrightarrow> ordered_right ks2 hi ts2 \<and>
      ordered_forest lo [] (if ks2 = [] then hi else Some (hd ks2)) [t]" for lo
    using assms(2) by (cases ks2) (auto simp: ordered_right_def)
  show ?thesis
  proof (cases ks1 rule: rev_cases)
    case Nil
    then show ?thesis using assms(1) right by (simp add: ordered_left_def)
  next
    case (snoc js k)
    then show ?thesis
      using assms(1) right [of "Some k"] ordered_forest_append [of ts1 js lo k ks2 hi "t # ts2"]
      by (auto simp: ordered_left_def)
  qed
qed

lemma ordered_fill:
  assumes "level_ok f"
  shows "ordered (hole_lo c) (hole_hi c) (fill f t) \<and> ordered_ctx c \<longleftrightarrow>
    ordered_ctx (f # c) \<and> below (hole_lo (f # c)) (hole_hi (f # c)) \<and>
    ordered (hole_lo (f # c)) (hole_hi (f # c)) t"
  using ordered_forest_hole [of "left_trees f" "left_keys f" "right_trees f" "right_keys f"] assms
  by (auto simp: level_ok_def)

lemma ordered_plug:
  assumes "\<forall>f \<in> set c. level_ok f"
  shows "ordered None None (plug c t) \<longleftrightarrow>
    ordered_ctx c \<and> below (hole_lo c) (hole_hi c) \<and> ordered (hole_lo c) (hole_hi c) t"
  using assms
proof (induction c arbitrary: t)
  case Nil
  then show ?case by (simp add: below_def)
next
  case (Cons f c)
  have "below (hole_lo c) (hole_hi c)" if "ordered (hole_lo c) (hole_hi c) (fill f t)"
    using that ordered_forest_below by simp
  then show ?case using Cons ordered_fill [of f c t] by auto
qed

lemma leaves_plug: "leaves (plug c t) = leaves_left c @ leaves t @ leaves_right c"
  by (induction c arbitrary: t) auto

lemma nodes_plug:
  "set (nodes (plug c t) INVALID_PAGE_ID) = set (ctx_nodes c (tree_id t)) \<union> set (nodes t (hole_parent c))"
  by (induction c arbitrary: t) (auto simp: level_node_def hole_parent_def)

lemma stores_plug:
  "stores h INVALID_PAGE_ID (plug c t) \<longleftrightarrow>
    (\<forall>nd \<in> set (ctx_nodes c (tree_id t)). h (page_id nd) = Some nd \<and> node_ok nd) \<and>
    stores h (hole_parent c) t"
  by (auto simp: stores_def nodes_plug)

lemma ids_plug: "mset (ids (plug c t)) = mset (ids t) + mset (ctx_ids c)"
  by (induction c arbitrary: t) (simp_all add: ac_simps)

text \<open>Keys outside the hole are outside the range of the hole.\<close>

definition leaf_keys :: "leaf list \<Rightarrow> int set" where
  "leaf_keys ls = fst ` set (pairs ls)"

lemma leaf_keys_simps [simp]:
  "leaf_keys [] = {}" "leaf_keys (ls @ ms) = leaf_keys ls \<union> leaf_keys ms"
  by (auto simp: leaf_keys_def)

lemma leaf_keys_forest: "leaf_keys (concat (map leaves ts)) = fst ` set (concat (map contents ts))"
  by (induction ts) (simp_all add: leaf_keys_def contents_def image_Un)

lemma hole_range_step:
  assumes "ordered_ctx (f # c)" and "in_range (hole_lo (f # c)) (hole_hi (f # c)) x"
  shows "in_range (hole_lo c) (hole_hi c) x"
proof -
  have "left_keys f \<noteq> [] \<Longrightarrow> below (hole_lo c) (Some (last (left_keys f)))"
    and "right_keys f \<noteq> [] \<Longrightarrow> below (Some (hd (right_keys f))) (hole_hi c)"
    using assms(1) ordered_forest_below by (auto simp: ordered_left_def ordered_right_def)
  then show ?thesis
    using assms(2) by (auto simp: below_def in_range_def split: option.splits if_splits)
qed

lemma ordered_ctx_keys:
  assumes "ordered_ctx c" and "in_range (hole_lo c) (hole_hi c) x"
  shows "(\<forall>y \<in> leaf_keys (leaves_left c). y < x) \<and> (\<forall>y \<in> leaf_keys (leaves_right c). x < y)"
  using assms
proof (induction c)
  case (Cons f c)
  note IH = Cons.IH [OF _ hole_range_step [OF Cons.prems]]
  have l: "y < x" if "y \<in> leaf_keys (concat (map leaves (left_trees f)))" for y
  proof -
    have "left_keys f \<noteq> []" and
      "ordered_forest (hole_lo c) (butlast (left_keys f)) (Some (last (left_keys f))) (left_trees f)"
      using Cons.prems(1) that by (auto simp: ordered_left_def split: if_splits)
    with ordered_forest_keys [OF this(2)] that have "in_range (hole_lo c) (Some (last (left_keys f))) y"
      unfolding leaf_keys_forest by blast
    with Cons.prems(2) \<open>left_keys f \<noteq> []\<close> show ?thesis by (simp add: in_range_def)
  qed
  have r: "x < y" if "y \<in> leaf_keys (concat (map leaves (right_trees f)))" for y
  proof -
    have "right_keys f \<noteq> []" and
      "ordered_forest (Some (hd (right_keys f))) (tl (right_keys f)) (hole_hi c) (right_trees f)"
      using Cons.prems(1) that by (auto simp: ordered_right_def split: if_splits)
    with ordered_forest_keys [OF this(2)] that have "in_range (Some (hd (right_keys f))) (hole_hi c) y"
      unfolding leaf_keys_forest by blast
    with Cons.prems(2) \<open>right_keys f \<noteq> []\<close> show ?thesis by (simp add: in_range_def)
  qed
  from l r IH Cons.prems(1) show ?case by auto
qed simp

text \<open>The level at which a search for a key goes down.\<close>

definition level_at :: "int \<Rightarrow> int list \<Rightarrow> tree list \<Rightarrow> nat \<Rightarrow> level" where
  "level_at q ks ts i = \<lparr>lv_id = q, left_keys = take i ks, left_trees = take i ts,
     right_keys = drop i ks, right_trees = drop (Suc i) ts\<rparr>"

lemma fill_level_at: "i < length ts \<Longrightarrow> fill (level_at q ks ts i) (ts ! i) = Inner q ks ts"
  by (simp add: level_at_def id_take_nth_drop [symmetric])

lemma level_at_ok: "length ts = Suc (length ks) \<Longrightarrow> i < length ts \<Longrightarrow> level_ok (level_at q ks ts i)"
  by (simp add: level_at_def level_ok_def)

lemma upper_bound_range:
  assumes "in_range lo hi key"
  shows "in_range (if take (upper_bound ks key) ks = [] then lo else Some (last (take (upper_bound ks key) ks)))
    (if drop (upper_bound ks key) ks = [] then hi else Some (hd (drop (upper_bound ks key) ks))) key"
proof -
  have take: "take (upper_bound ks key) ks = takeWhile (\<lambda>x. x \<le> key) ks"
    by (metis takeWhile_eq_take upper_bound_def)
  have "drop (upper_bound ks key) ks = dropWhile (\<lambda>x. x \<le> key) ks"
    by (metis dropWhile_eq_drop upper_bound_def)
  moreover have "takeWhile (\<lambda>x. x \<le> key) ks \<noteq> [] \<Longrightarrow> last (takeWhile (\<lambda>x. x \<le> key) ks) \<le> key"
    using set_takeWhileD [OF last_in_set] by blast
  moreover have "dropWhile (\<lambda>x. x \<le> key) ks \<noteq> [] \<Longrightarrow> key < hd (dropWhile (\<lambda>x. x \<le> key) ks)"
    using hd_dropWhile [of "\<lambda>x. x \<le> key" ks] by linarith
  ultimately show ?thesis using assms unfolding take by (auto simp: in_range_def)
qed

end
