(* ===== verification/BPlus_Search.thy ===== *)
theory BPlus_Search
  imports BPlus_Shape
begin

text \<open>
  What the B+ tree of a state represents, and the correctness of \<open>Search\<close> and \<open>RangeScan\<close>
  against that representation.
\<close>

section \<open>The represented map\<close>

abbreviation nodes_at :: "btree \<Rightarrow> int \<Rightarrow> node option" where
  "nodes_at t \<equiv> node_of (tree_pages t)"

definition same_tree :: "btree \<Rightarrow> btree \<Rightarrow> bool" where
  "same_tree t t' \<longleftrightarrow> tree_idle t' \<and> tree_pages t' = tree_pages t \<and> tree_avail t' = tree_avail t \<and>
     root_page_id t' = root_page_id t"

definition tree_ok :: "tree \<Rightarrow> bool" where
  "tree_ok T \<longleftrightarrow> distinct (ids T) \<and> ordered None None T \<and> chain (leaves T) INVALID_PAGE_ID \<and> balanced_root T"

text \<open>The state holds the key-value pairs \<open>kvs\<close>, in the order of the keys.\<close>

definition represents :: "btree \<Rightarrow> (int \<times> int) list \<Rightarrow> bool" where
  "represents t kvs \<longleftrightarrow> tree_idle t \<and>
     (if root_page_id t = INVALID_PAGE_ID then kvs = []
      else \<exists>T. tree_id T = root_page_id t \<and> stores (nodes_at t) INVALID_PAGE_ID T \<and> tree_ok T \<and> kvs = contents T)"

text \<open>The pairs of a closed range of keys.\<close>

definition between :: "int \<Rightarrow> int \<Rightarrow> (int \<times> int) list \<Rightarrow> (int \<times> int) list" where
  "between lo hi kvs = filter (\<lambda>(k, v). lo \<le> k \<and> k \<le> hi) kvs"

text \<open>An empty tree over a pool of two frames.\<close>

definition demo_tree :: btree where
  "demo_tree = \<lparr>bpm = demo_pool, root_page_id = INVALID_PAGE_ID\<rparr>"

section \<open>Descending to a leaf\<close>

lemma same_tree_trans [trans]: "same_tree a b \<Longrightarrow> same_tree b c \<Longrightarrow> same_tree a c"
  by (simp add: same_tree_def)

lemma same_tree_refl: "tree_idle t \<Longrightarrow> same_tree t t"
  by (simp add: same_tree_def)

lemma same_tree_idle: "same_tree t t' \<Longrightarrow> tree_idle t'"
  by (simp add: same_tree_def)

lemma same_tree_nodes: "same_tree t t' \<Longrightarrow> tree_pages t' = tree_pages t"
  by (simp add: same_tree_def)

lemma same_tree_root: "same_tree t t' \<Longrightarrow> root_page_id t' = root_page_id t"
  by (simp add: same_tree_def)

lemma same_tree_represents: "represents t kvs \<Longrightarrow> same_tree t t' \<Longrightarrow> represents t' kvs"
  by (simp add: represents_def same_tree_def)

lemma read_stored:
  assumes "tree_idle t" and "nodes_at t q = Some nd"
  shows "\<exists>t'. ReadNode q t = (Inr nd, t') \<and> same_tree t t'"
  using tree_store.rd_node [OF assms] by (auto simp: same_tree_def)

lemma stored_id_valid:
  assumes "tree_idle t" and "nodes_at t q = Some nd"
  shows "q \<noteq> INVALID_PAGE_ID" and "0 \<le> q" and "q < 2 ^ 31"
proof -
  obtain bs where "tree_pages t q = Some bs" using node_of_page [OF assms(2)] by blast
  with pool_pages_wf [OF assms(1)] show "0 \<le> q" "q < 2 ^ 31" by blast+
  then show "q \<noteq> INVALID_PAGE_ID" by (simp add: INVALID_PAGE_ID_def)
qed

lemma stores_root:
  assumes "stores h p t"
  shows "\<exists>nd \<in> set (nodes t p). page_id nd = tree_id t \<and> h (tree_id t) = Some nd"
  using assms by (cases t) (auto simp: stores_def)

lemma stores_Leaf: "stores h p (Leaf q kvs nx) \<Longrightarrow> h q = Some (leaf_node q p kvs nx)"
  by (auto simp: stores_def)

lemma stores_Inner: "stores h p (Inner q ks ts) \<Longrightarrow> h q = Some (inner_node q p ks (map tree_id ts))"
  by (auto simp: stores_def)

lemma stores_child: "stores h p (Inner q ks ts) \<Longrightarrow> t \<in> set ts \<Longrightarrow> stores h q t"
  by (auto simp: stores_def forest_nodes_def)

lemma find_leaf_plug:
  assumes "tree_idle s" and "stores (nodes_at s) (hole_parent c) t"
    and "ordered (hole_lo c) (hole_hi c) t" and "in_range (hole_lo c) (hole_hi c) key"
    and "height t \<le> n" and "\<forall>f \<in> set c. level_ok f"
  shows "\<exists>q kvs nx c' s'. find_leaf_loop n (tree_id t) key s = (Inr q, s') \<and> same_tree s s' \<and>
    plug c t = plug c' (Leaf q kvs nx) \<and> in_range (hole_lo c') (hole_hi c') key \<and> (\<forall>f \<in> set c'. level_ok f)"
  using assms
proof (induction n arbitrary: t c s)
  case 0
  then show ?case using height_pos [of t] by simp
next
  case (Suc n)
  obtain nd where nd: "nodes_at s (tree_id t) = Some nd"
    using stores_root [OF Suc.prems(2)] by blast
  obtain s1 where s1: "ReadNode (tree_id t) s = (Inr nd, s1)" "same_tree s s1"
    using read_stored [OF Suc.prems(1) nd] by blast
  note valid = stored_id_valid(1) [OF Suc.prems(1) nd]
  show ?case
  proof (cases t)
    case (Leaf q kvs nx)
    then have "is_leaf nd" using nd stores_Leaf Suc.prems(2) by fastforce
    then have "find_leaf_loop (Suc n) (tree_id t) key s = (Inr q, s1)"
      using valid s1 Leaf by (simp add: run)
    then show ?thesis using s1 Leaf Suc.prems(4,6) by blast
  next
    case (Inner q ks ts)
    have nd_eq: "nd = inner_node q (hole_parent c) ks (map tree_id ts)"
      using nd stores_Inner Suc.prems(2) Inner by fastforce
    let ?i = "upper_bound ks key"
    let ?f = "level_at q ks ts ?i"
    have len: "length ts = Suc (length ks)"
      using Suc.prems(3) Inner ordered_forest_length by simp
    then have i: "?i < length ts" by (simp add: less_Suc_eq_le)
    have lv: "level_ok ?f" using level_at_ok [OF len i] .
    have st: "stores (nodes_at s1) (hole_parent (?f # c)) (ts ! ?i)"
      using stores_child Suc.prems(2) Inner i by (simp add: same_tree_nodes [OF s1(2)] hole_parent_def level_at_def)
    have rg: "in_range (hole_lo (?f # c)) (hole_hi (?f # c)) key"
      using upper_bound_range [OF Suc.prems(4), of ks]
      by (simp only: level_at_def hole_lo.simps hole_hi.simps level.select_convs)
    have ord: "ordered (hole_lo (?f # c)) (hole_hi (?f # c)) (ts ! ?i)"
      using ordered_forest_hole [of "left_trees ?f" "left_keys ?f" "right_trees ?f" "right_keys ?f"
          "hole_lo c" "hole_hi c" "ts ! ?i"] lv Suc.prems(3) fill_level_at [OF i, of q ks] Inner
      by (simp add: level_ok_def)
    have h: "height (ts ! ?i) \<le> n"
      using height_child [of "ts ! ?i" ts q ks] i Suc.prems(5) Inner by simp
    from Suc.IH [OF same_tree_idle [OF s1(2)] st ord rg h] lv Suc.prems(6) obtain q' kvs nx c' s' where
      r: "find_leaf_loop n (tree_id (ts ! ?i)) key s1 = (Inr q', s')" "same_tree s1 s'"
      "plug (?f # c) (ts ! ?i) = plug c' (Leaf q' kvs nx)" "in_range (hole_lo c') (hole_hi c') key"
      "\<forall>f \<in> set c'. level_ok f"
      by auto
    have "find_leaf_loop (Suc n) (tree_id t) key s = (Inr q', s')"
      using valid s1 nd_eq i r(1) by (simp add: run nthM_def)
    moreover have "plug c t = plug c' (Leaf q' kvs nx)"
      using r(3) fill_level_at [OF i, of q ks] Inner by simp
    ultimately show ?thesis using r(2,4,5) same_tree_trans [OF s1(2)] by blast
  qed
qed

lemma stores_ids:
  assumes "stores h p t" and "q \<in> set (ids t)"
  shows "h q \<noteq> None"
proof -
  have "q \<in> page_id ` set (nodes t p)" using assms(2) ids_nodes [of t p] by (metis list.set_map)
  then show ?thesis using assms(1) by (auto simp: stores_def)
qed

lemma ids_less_fuel:
  assumes "tree_idle s" and "stores (nodes_at s) p t" and "distinct (ids t)"
  shows "length (ids t) < fuel s"
  using tree_store.distinct_nodes_bound [OF assms(1,3)] stores_ids [OF assms(2)] by blast

text \<open>\<open>FindLeaf\<close> reaches the leaf whose range contains the key.\<close>

lemma FindLeaf_plug:
  assumes "tree_idle s" and "stores (nodes_at s) INVALID_PAGE_ID T" and "tree_ok T"
    and "tree_id T = root_page_id s"
  shows "\<exists>q kvs nx c s'. FindLeaf key s = (Inr q, s') \<and> same_tree s s' \<and>
    T = plug c (Leaf q kvs nx) \<and> in_range (hole_lo c) (hole_hi c) key \<and> ordered_ctx c \<and>
    ordered (hole_lo c) (hole_hi c) (Leaf q kvs nx) \<and> stores (nodes_at s) (hole_parent c) (Leaf q kvs nx)"
proof -
  have "height T \<le> fuel s"
    using height_le_ids [of T] ids_less_fuel [OF assms(1,2)] assms(3) by (simp add: tree_ok_def)
  moreover have "stores (nodes_at s) (hole_parent []) T" "ordered (hole_lo []) (hole_hi []) T"
    "in_range (hole_lo []) (hole_hi []) key" "\<forall>f \<in> set []. level_ok f"
    using assms(2,3) by (simp_all add: tree_ok_def hole_parent_def in_range_def)
  ultimately obtain q kvs nx c s' where
    r: "find_leaf_loop (fuel s) (tree_id T) key s = (Inr q, s')" "same_tree s s'"
    "T = plug c (Leaf q kvs nx)" "in_range (hole_lo c) (hole_hi c) key" "\<forall>f \<in> set c. level_ok f"
    using find_leaf_plug [of s "[]" T key, OF assms(1)] by (metis plug.simps(1))
  have "FindLeaf key s = (Inr q, s')" using r(1) assms(4) by (simp add: FindLeaf_def run)
  moreover have "ordered_ctx c" "ordered (hole_lo c) (hole_hi c) (Leaf q kvs nx)"
    using ordered_plug [OF r(5)] r(3) assms(3) by (auto simp: tree_ok_def)
  moreover have "stores (nodes_at s) (hole_parent c) (Leaf q kvs nx)"
    using stores_plug assms(2) r(3) by blast
  ultimately show ?thesis using r by blast
qed

lemma contents_plug:
  "contents (plug c t) = pairs (leaves_left c) @ contents t @
     pairs (leaves_right c)"
  by (simp add: contents_def leaves_plug)

section \<open>Search\<close>

lemma lower_bound_map_of:
  "sorted_wrt (<) (map fst kvs) \<Longrightarrow> map_of kvs key =
    (if lower_bound (map fst kvs) key = length kvs \<or> map fst kvs ! lower_bound (map fst kvs) key \<noteq> key
     then None else Some (map snd kvs ! lower_bound (map fst kvs) key))"
proof (induction kvs)
  case (Cons kv kvs)
  have "map_of kvs key = None" if "key \<le> fst kv"
    using that Cons.prems(1) by (force simp: map_of_eq_None_iff)
  then show ?case using Cons by (cases kv) (auto simp: lower_bound_def)
qed (simp add: lower_bound_def)

lemma map_of_leaf:
  assumes "ordered_ctx c" and "in_range (hole_lo c) (hole_hi c) key"
  shows "map_of (contents (plug c (Leaf q kvs nx))) key = map_of kvs key"
proof -
  note k = ordered_ctx_keys [OF assms]
  have "map_of (pairs (leaves_left c)) key = None"
    and "map_of (pairs (leaves_right c)) key = None"
    using k by (auto simp: map_of_eq_None_iff leaf_keys_def)
  then show ?thesis by (simp add: contents_plug map_add_def split: option.splits)
qed

text \<open>The first insertion makes a tree with one pair.\<close>

lemma first_insert:
  assumes "represents t []" and "root_page_id t = INVALID_PAGE_ID" and "0 < tree_avail t"
    and "in_i64 key" and "in_i64 val"
  shows "\<exists>t'. Insert key val t = (Inr True, t') \<and> represents t' [(key, val)] \<and>
    Suc (tree_avail t') = tree_avail t"
proof -
  let ?nd = "BPlusTreeNode\<lparr>keys := [key], values := [val]\<rparr>"
  have nd: "?nd\<lparr>page_id := q\<rparr> = leaf_node q INVALID_PAGE_ID [(key, val)] INVALID_PAGE_ID" for q
    by (simp add: leaf_node_def BPlusTreeNode_def)
  have ok: "0 \<le> q \<Longrightarrow> q < 2 ^ 31 \<Longrightarrow> node_ok (?nd\<lparr>page_id := q\<rparr>)" for q
    unfolding nd using assms(4,5) by (simp add: node_ok_def MAX_KEYS_def in_i32_def INVALID_PAGE_ID_def)
  from tree_store.create_node [OF _ assms(3) ok] assms(1) obtain q t1 where
    1: "CreateNode ?nd t = (Inr q, t1)" "tree_idle t1" "0 \<le> q" "q < 2 ^ 31"
    "tree_pages t1 = (tree_pages t)(q \<mapsto> node_image (?nd\<lparr>page_id := q\<rparr>))"
    "Suc (tree_avail t1) = tree_avail t"
    by (auto simp: represents_def)
  let ?t' = "t1\<lparr>root_page_id := q\<rparr>"
  have "Insert key val t = (Inr True, ?t')" using assms(2) 1(1) by (simp add: Insert_def run)
  moreover have "stores (nodes_at ?t') INVALID_PAGE_ID (Leaf q [(key, val)] INVALID_PAGE_ID)"
    using ok [OF 1(3,4)] 1(5) nd by (simp add: stores_def node_of_write)
  then have "represents ?t' [(key, val)]"
    using 1(2,3) unfolding represents_def
    by (auto simp: tree_ok_def INVALID_PAGE_ID_def in_range_def
        intro!: exI [of _ "Leaf q [(key, val)] INVALID_PAGE_ID"])
  ultimately show ?thesis using 1(6) by simp
qed

lemma demo_tree_one: "represents (snd (Insert 1 10 demo_tree)) [(1, 10)]"
proof -
  have "represents demo_tree []" and "0 < tree_avail demo_tree" and "root_page_id demo_tree = INVALID_PAGE_ID"
    by (simp_all add: represents_def demo_tree_def) (simp add: room_def demo_pool_def demo_disk_def)
  from first_insert [OF this(1,3,2), of 1 10] show ?thesis by (auto simp: in_i64_def)
qed

text \<open>
  C9. \<open>Search\<close> in a tree that represents a sorted list of key-value pairs returns the value
  of the key, or that the key is absent, and leaves the tree as it is; in particular its
  descent ends and every node it reads is there.
\<close>

theorem search_correct:
  assumes "represents t kvs"
  shows "\<exists>t'. Search key t = (Inr (map_of kvs key), t') \<and> represents t' kvs"
proof (cases "root_page_id t = INVALID_PAGE_ID")
  case True
  then show ?thesis using assms by (simp add: Search_def run represents_def)
next
  case False
  then obtain T where T: "tree_idle t" "stores (nodes_at t) INVALID_PAGE_ID T" "tree_ok T"
    "tree_id T = root_page_id t" "kvs = contents T"
    using assms by (auto simp: represents_def)
  from FindLeaf_plug [OF T(1-4), of key] obtain q lkvs nx c t1 where
    1: "FindLeaf key t = (Inr q, t1)" "same_tree t t1" "T = plug c (Leaf q lkvs nx)"
    "in_range (hole_lo c) (hole_hi c) key" "ordered_ctx c"
    "ordered (hole_lo c) (hole_hi c) (Leaf q lkvs nx)" "stores (nodes_at t) (hole_parent c) (Leaf q lkvs nx)"
    by blast
  have "nodes_at t1 q = Some (leaf_node q (hole_parent c) lkvs nx)"
    using stores_Leaf [OF 1(7)] by (simp add: same_tree_nodes [OF 1(2)])
  from read_stored [OF same_tree_idle [OF 1(2)] this] obtain t2 where
    2: "ReadNode q t1 = (Inr (leaf_node q (hole_parent c) lkvs nx), t2)" "same_tree t1 t2" by blast
  have "lower_bound (map fst lkvs) key \<le> length lkvs" using lower_bound_le [of "map fst lkvs" key] by simp
  then have "Search key t = (Inr (map_of lkvs key), t2)"
    using False 1(1,6) 2(1) lower_bound_map_of [of lkvs key]
    by (auto simp: Search_def run nthM_def Let_def le_less)
  moreover have "map_of kvs key = map_of lkvs key"
    using map_of_leaf [OF 1(5,4)] T(5) 1(3) by simp
  ultimately show ?thesis
    using same_tree_represents [OF assms same_tree_trans [OF 1(2) 2(2)]] by simp
qed

theorem search_correct_witness:
  "\<exists>t'. Search 1 (snd (Insert 1 10 demo_tree)) = (Inr (Some 10), t') \<and> represents t' [(1, 10)]"
  using search_correct [OF demo_tree_one, of 1] by simp

section \<open>Range scans\<close>

lemma between_append [simp]: "between lo hi (xs @ ys) = between lo hi xs @ between lo hi ys"
  by (simp add: between_def)

lemma between_none: "(\<forall>k \<in> fst ` set kvs. k < lo \<or> hi < k) \<Longrightarrow> between lo hi kvs = []"
  by (force simp: between_def filter_empty_conv)

lemma scan_leaf_between:
  "sorted_wrt (<) (map fst kvs) \<Longrightarrow>
    scan_leaf lo hi kvs = (between lo hi kvs, \<forall>k \<in> fst ` set kvs. k < lo \<or> k \<le> hi)"
proof (induction kvs)
  case (Cons kv kvs)
  have "between lo hi kvs = []" if "hi < fst kv"
    using that Cons.prems by (intro between_none) auto
  then show ?case using Cons by (cases kv) (auto simp: between_def)
qed (simp add: between_def)

lemma range_scan_chain:
  assumes "tree_idle s" and "chain ls INVALID_PAGE_ID"
    and "\<And>q kvs nx. (q, kvs, nx) \<in> set ls \<Longrightarrow> \<exists>p. nodes_at s q = Some (leaf_node q p kvs nx)"
    and "sorted_wrt (<) (map fst (pairs ls))" and "length ls < n" and "lo \<le> hi"
  shows "\<exists>s'. range_scan_loop n (case ls of [] \<Rightarrow> INVALID_PAGE_ID | l # _ \<Rightarrow> fst l) lo hi s =
    (Inr (between lo hi (pairs ls)), s') \<and> same_tree s s'"
  using assms
proof (induction ls arbitrary: n s)
  case Nil
  then obtain m where "n = Suc m" by (cases n) auto
  then show ?case using Nil same_tree_refl by (simp add: run between_def)
next
  case (Cons l ls)
  obtain q kvs nx where l: "l = (q, kvs, nx)" by (cases l)
  obtain m where n: "n = Suc m" using Cons.prems(5) by (cases n) auto
  obtain p where nd: "nodes_at s q = Some (leaf_node q p kvs nx)" using Cons.prems(3) l by fastforce
  obtain s1 where s1: "ReadNode q s = (Inr (leaf_node q p kvs nx), s1)" "same_tree s s1"
    using read_stored [OF Cons.prems(1) nd] by blast
  let ?rest = "pairs ls"
  have nx: "nx = (case ls of [] \<Rightarrow> INVALID_PAGE_ID | l # _ \<Rightarrow> fst l)" "chain ls INVALID_PAGE_ID"
    using Cons.prems(2) l by (cases ls; auto)+
  have sorted: "sorted_wrt (<) (map fst kvs)" "sorted_wrt (<) (map fst ?rest)"
    and less: "\<And>x y. x \<in> fst ` set kvs \<Longrightarrow> y \<in> fst ` set ?rest \<Longrightarrow> x < y"
    using Cons.prems(4) l by (auto simp: sorted_wrt_append comp_def)
  have scan: "scan_leaf lo hi (zip (map fst kvs) (map snd kvs)) =
      (between lo hi kvs, \<forall>k \<in> fst ` set kvs. k < lo \<or> k \<le> hi)"
    using scan_leaf_between [OF sorted(1)] by (simp add: zip_map_fst_snd)
  note valid = stored_id_valid(1) [OF Cons.prems(1) nd]
  show ?case
  proof (cases "\<forall>k \<in> fst ` set kvs. k < lo \<or> k \<le> hi")
    case True
    have "\<And>q kvs nx. (q, kvs, nx) \<in> set ls \<Longrightarrow> \<exists>p. nodes_at s1 q = Some (leaf_node q p kvs nx)"
      using Cons.prems(3) by (simp add: same_tree_nodes [OF s1(2)])
    from Cons.IH [OF same_tree_idle [OF s1(2)] nx(2) this sorted(2), of m] Cons.prems(5,6) n obtain s2 where
      s2: "range_scan_loop m nx lo hi s1 = (Inr (between lo hi ?rest), s2)" "same_tree s1 s2"
      by (auto simp: nx(1))
    show ?thesis using True valid s1 s2 scan n l same_tree_trans [OF s1(2)] by (simp add: run)
  next
    case False
    then obtain k where "k \<in> fst ` set kvs" "hi < k" by (meson not_le)
    then have "between lo hi ?rest = []" using less by (intro between_none) force
    then show ?thesis using False valid s1 scan n l by (simp add: run)
  qed
qed

lemma stores_leaves:
  "stores h p t \<Longrightarrow> (q, kvs, nx) \<in> set (leaves t) \<Longrightarrow> \<exists>p. h q = Some (leaf_node q p kvs nx)"
proof (induction t arbitrary: p)
  case (Inner r ks ts)
  then obtain t where "t \<in> set ts" "(q, kvs, nx) \<in> set (leaves t)" by auto
  then show ?case using Inner stores_child by blast
qed (auto simp: stores_def)

lemma leaves_le_ids: "length (leaves t) \<le> length (ids t)"
proof (induction t)
  case (Inner q ks ts)
  then have "length (concat (map leaves ts)) \<le> length (concat (map ids ts))"
    by (induction ts) (auto simp: add_le_mono)
  then show ?case by simp
qed simp

lemma chain_append: "chain (ls @ l # ms) nx \<Longrightarrow> chain (l # ms) nx"
  by (induction ls nx rule: chain.induct) (auto elim: chain.elims)

text \<open>
  C10. \<open>RangeScan\<close> appends to its output exactly the pairs whose keys lie in the closed
  range, in ascending order of the keys, by following the chain of leaves; it ends, and it
  leaves the tree as it is.
\<close>

theorem range_scan_correct:
  assumes "represents t kvs"
  shows "\<exists>t'. RangeScan lo hi (Some out) t = (Inr (Some (out @ between lo hi kvs)), t') \<and>
    represents t' kvs \<and> sorted_wrt (<) (map fst (between lo hi kvs))"
proof (cases "root_page_id t = INVALID_PAGE_ID \<or> hi < lo")
  case True
  then have "between lo hi kvs = []"
    using assms by (force simp: represents_def between_def filter_empty_conv split: if_splits)
  then show ?thesis using True assms by (auto simp: RangeScan_def run)
next
  case False
  then obtain T where T: "tree_idle t" "stores (nodes_at t) INVALID_PAGE_ID T" "tree_ok T"
    "tree_id T = root_page_id t" "kvs = contents T"
    using assms by (auto simp: represents_def)
  from FindLeaf_plug [OF T(1-4), of lo] obtain q lkvs nx c t1 where
    1: "FindLeaf lo t = (Inr q, t1)" "same_tree t t1" "T = plug c (Leaf q lkvs nx)"
    "in_range (hole_lo c) (hole_hi c) lo" "ordered_ctx c"
    by blast
  let ?ls = "(q, lkvs, nx) # leaves_right c"
  have leaves: "leaves T = leaves_left c @ ?ls" using 1(3) leaves_plug by simp
  have kvs: "kvs = pairs (leaves_left c) @ pairs ?ls"
    using T(5) leaves by (simp add: contents_def)
  have sorted: "sorted_wrt (<) (map fst kvs)" using ordered_sorted T(3,5) by (auto simp: tree_ok_def)
  have "chain ?ls INVALID_PAGE_ID"
    using chain_append [of "leaves_left c"] T(3) unfolding tree_ok_def leaves by blast
  moreover have "\<exists>p. nodes_at t1 r = Some (leaf_node r p vs y)" if "(r, vs, y) \<in> set ?ls" for r vs y
  proof -
    have "(r, vs, y) \<in> set (leaves T)" using that leaves by auto
    from stores_leaves [OF T(2) this] show ?thesis by (simp add: same_tree_nodes [OF 1(2)])
  qed
  moreover have "sorted_wrt (<) (map fst (pairs ?ls))"
    using sorted unfolding kvs map_append sorted_wrt_append by blast
  moreover have "length ?ls < fuel t1"
  proof -
    have "stores (nodes_at t1) INVALID_PAGE_ID T" using T(2) by (simp add: same_tree_nodes [OF 1(2)])
    then have "length (ids T) < fuel t1"
      using ids_less_fuel same_tree_idle [OF 1(2)] T(3) by (auto simp: tree_ok_def)
    then show ?thesis using leaves_le_ids [of T] leaves by simp
  qed
  ultimately obtain t2 where
    2: "range_scan_loop (fuel t1) q lo hi t1 = (Inr (between lo hi (pairs ?ls)), t2)"
    "same_tree t1 t2"
    using range_scan_chain [OF same_tree_idle [OF 1(2)], of ?ls "fuel t1" lo hi] False by auto
  have "between lo hi (pairs (leaves_left c)) = []"
    using ordered_ctx_keys [OF 1(5,4)] by (intro between_none) (auto simp: leaf_keys_def)
  then have "RangeScan lo hi (Some out) t = (Inr (Some (out @ between lo hi kvs)), t2)"
    using False 1(1) 2(1) unfolding kvs by (simp add: RangeScan_def run)
  moreover have "sorted_wrt (<) (map fst (between lo hi kvs))"
    using sorted by (simp add: between_def sorted_wrt_map sorted_wrt_filter)
  ultimately show ?thesis using same_tree_represents [OF assms same_tree_trans [OF 1(2) 2(2)]] by blast
qed

theorem range_scan_correct_witness:
  "\<exists>t'. RangeScan 0 5 (Some []) (snd (Insert 1 10 demo_tree)) = (Inr (Some [(1, 10)]), t') \<and>
    represents t' [(1, 10)]"
  using range_scan_correct [OF demo_tree_one, of 0 5 "[]"] by (auto simp: between_def)

end
