(* ===== verification/Table.thy ===== *)
theory Table
  imports Table_Record Wal_Manager BPlus_Search
begin

text \<open>
  Tables and the query engine (\<open>src/src/query/table.{h,cpp}\<close>, \<open>src/src/query/query_engine.{h,cpp}\<close>).

  A table has an index, whose buffer pool also holds the pages of the records, and possibly a
  write-ahead log. An index value is the page id of a record. Predicates and mutators are
  functions on records. The query engine is a thin layer over one table.
\<close>

section \<open>State\<close>

record table =
  index :: btree
  wal_manager :: "wal option"

definition Table :: "btree option \<Rightarrow> wal option \<Rightarrow> table res" where
  "Table idx w = (case idx of
     None \<Rightarrow> Inl (Invalid_Argument ''index must not be null'')
   | Some t \<Rightarrow> Inr \<lparr>index = t, wal_manager = w\<rparr>)"

definition on_index :: "(btree, 'a) comp \<Rightarrow> (table, 'a) comp" where
  "on_index m = zoomM index (\<lambda>t s. s\<lparr>index := t\<rparr>) m"

text \<open>\<open>buffer_pool_manager_\<close> is the buffer pool of the index.\<close>

definition on_buffer_pool :: "(pool, 'a) comp \<Rightarrow> (table, 'a) comp" where
  "on_buffer_pool m = on_index (on_pool m)"

text \<open>\<open>if (wal_manager_ != nullptr) ...\<close>\<close>

definition on_wal :: "(wal, unit) comp \<Rightarrow> (table, unit) comp" where
  "on_wal m s = (case wal_manager s of
     None \<Rightarrow> (Inr (), s)
   | Some w \<Rightarrow> (case m w of (r, w') \<Rightarrow> (r, s\<lparr>wal_manager := Some w'\<rparr>)))"

section \<open>Records in pages\<close>

definition RecordImage :: "Record \<Rightarrow> bytes" where
  "RecordImage r = SerializeRecord r (replicate RECORD_SIZE 0)"

definition RecordFromImage :: "bytes \<Rightarrow> Record res" where
  "RecordFromImage img =
     (if length img \<noteq> RECORD_SIZE then Inl (Runtime_Error ''invalid record image in WAL'')
      else Inr (DeserializeRecord img))"

definition ReadRecord :: "int \<Rightarrow> (table, Record option) comp" where
  "ReadRecord record_page_id =
     (let page_id = to_i32 record_page_id in
      if page_id = INVALID_PAGE_ID then returnM None
      else
        bindM (on_buffer_pool (FetchPage page_id)) (\<lambda>r. case r of
          None \<Rightarrow> returnM None
        | Some i \<Rightarrow>
            bindM (on_buffer_pool (frame_data i)) (\<lambda>bs.
            thenM (on_buffer_pool (UnpinPage page_id False)) (
            returnM (Some (DeserializeRecord bs))))))"

definition WriteRecord :: "int \<Rightarrow> Record \<Rightarrow> (table, bool) comp" where
  "WriteRecord record_page_id r =
     bindM (on_buffer_pool (FetchPage (to_i32 record_page_id))) (\<lambda>f. case f of
       None \<Rightarrow> returnM False
     | Some i \<Rightarrow>
         bindM (on_buffer_pool (frame_data i)) (\<lambda>bs.
         thenM (on_buffer_pool (set_frame_data i (SerializeRecord r bs))) (
         thenM (on_buffer_pool (UnpinPage (to_i32 record_page_id) True)) (
         returnM True))))"

section \<open>Operations without the log\<close>

definition InsertWithoutWAL :: "Record \<Rightarrow> (table, bool) comp" where
  "InsertWithoutWAL r =
     bindM (on_index (Search (rec_id r))) (\<lambda>found.
     if found \<noteq> None then returnM False
     else
       bindM (on_buffer_pool (NewPage True)) (\<lambda>f. case f of
         None \<Rightarrow> returnM False
       | Some (i, record_page_id) \<Rightarrow>
           bindM (on_buffer_pool (frame_data i)) (\<lambda>bs.
           thenM (on_buffer_pool (set_frame_data i (SerializeRecord r bs))) (
           thenM (on_buffer_pool (UnpinPage record_page_id True)) (
           bindM (on_index (Insert (rec_id r) record_page_id)) (\<lambda>inserted.
           if inserted then returnM True
           else thenM (on_buffer_pool (DeletePage record_page_id)) (returnM False)))))))"

definition UpdateWithoutWAL :: "int \<Rightarrow> Record \<Rightarrow> (table, bool) comp" where
  "UpdateWithoutWAL rid r =
     bindM (on_index (Search rid)) (\<lambda>found. case found of
       None \<Rightarrow> InsertWithoutWAL r
     | Some record_page_id \<Rightarrow> WriteRecord record_page_id r)"

definition DeleteWithoutWAL :: "int \<Rightarrow> (table, bool) comp" where
  "DeleteWithoutWAL rid =
     bindM (on_index (Search rid)) (\<lambda>found. case found of
       None \<Rightarrow> returnM True
     | Some record_page_id \<Rightarrow>
         bindM (on_index (Delete rid)) (\<lambda>deleted.
         if \<not> deleted then returnM False
         else on_buffer_pool (DeletePage (to_i32 record_page_id))))"

section \<open>Logged operations\<close>

definition Table_Insert :: "Record \<Rightarrow> (table, bool) comp" where
  "Table_Insert r =
     bindM (on_index (Search (rec_id r))) (\<lambda>found.
     if found \<noteq> None then returnM False
     else
       thenM (on_wal (thenM (AppendInsert (rec_id r) (RecordImage r)) Flush)) (
       bindM (InsertWithoutWAL r) (\<lambda>inserted.
       thenM (if inserted then on_wal AppendCommit else returnM ()) (
       returnM inserted))))"

text \<open>\<open>Select\<close>: the first argument says whether \<open>out\<close> is a valid pointer.\<close>

definition Table_Select :: "bool \<Rightarrow> int \<Rightarrow> (table, Record option) comp" where
  "Table_Select has_out rid =
     (if \<not> has_out then returnM None
      else
        bindM (on_index (Search rid)) (\<lambda>found. case found of
          None \<Rightarrow> returnM None
        | Some record_page_id \<Rightarrow> ReadRecord record_page_id))"

fun select_loop :: "(Record \<Rightarrow> bool) \<Rightarrow> (int \<times> int) list \<Rightarrow> (table, Record list) comp" where
  "select_loop p [] = returnM []"
| "select_loop p ((k, v) # entries) =
     bindM (ReadRecord v) (\<lambda>r.
     bindM (select_loop p entries) (\<lambda>rs.
     returnM (case r of None \<Rightarrow> rs | Some x \<Rightarrow> if p x then x # rs else rs)))"

definition Table_SelectWhere :: "(Record \<Rightarrow> bool) \<Rightarrow> (table, Record list) comp" where
  "Table_SelectWhere p =
     bindM (on_index (RangeScan (- (2 ^ 63)) (2 ^ 63 - 1) (Some []))) (\<lambda>entries.
     select_loop p (case entries of None \<Rightarrow> [] | Some es \<Rightarrow> es))"

definition Table_Update :: "int \<Rightarrow> (Record \<Rightarrow> Record) \<Rightarrow> (table, bool) comp" where
  "Table_Update rid mutator =
     bindM (Table_Select True rid) (\<lambda>found. case found of
       None \<Rightarrow> returnM False
     | Some r0 \<Rightarrow>
         let before = RecordImage r0;
             r = (mutator r0)\<lparr>rec_id := rid\<rparr>
         in
         thenM (on_wal (thenM (AppendUpdate rid before (RecordImage r)) Flush)) (
         bindM (UpdateWithoutWAL rid r) (\<lambda>updated.
         thenM (if updated then on_wal AppendCommit else returnM ()) (
         returnM updated))))"

definition Table_Delete :: "int \<Rightarrow> (table, bool) comp" where
  "Table_Delete rid =
     bindM (Table_Select True rid) (\<lambda>found. case found of
       None \<Rightarrow> returnM False
     | Some r \<Rightarrow>
         thenM (on_wal (thenM (AppendDelete rid (RecordImage r)) Flush)) (
         bindM (DeleteWithoutWAL rid) (\<lambda>deleted.
         thenM (if deleted then on_wal AppendCommit else returnM ()) (
         returnM deleted))))"

section \<open>Recovery\<close>

definition redo :: "LogRecord \<Rightarrow> (table, unit) comp" where
  "redo r = (case log_type r of
     INSERT \<Rightarrow> bindM (liftM (RecordFromImage (after_image r))) (\<lambda>x.
       thenM (InsertWithoutWAL x) (returnM ()))
   | UPDATE \<Rightarrow> bindM (liftM (RecordFromImage (after_image r))) (\<lambda>x.
       thenM (UpdateWithoutWAL (record_id r) x) (returnM ()))
   | DELETE \<Rightarrow> thenM (DeleteWithoutWAL (record_id r)) (returnM ())
   | COMMIT \<Rightarrow> returnM ())"

definition Recover :: "(table, unit) comp" where
  "Recover s = (case wal_manager s of
     None \<Rightarrow> (Inr (), s)
   | Some w \<Rightarrow> (case ReadAllRecords w of
       (Inl e, w') \<Rightarrow> (Inl e, s\<lparr>wal_manager := Some w'\<rparr>)
     | (Inr rs, w') \<Rightarrow> foreachM rs redo (s\<lparr>wal_manager := Some w'\<rparr>)))"

section \<open>The query engine\<close>

definition QueryEngine :: "btree option \<Rightarrow> wal option \<Rightarrow> table res" where
  "QueryEngine idx w = Table idx w"

definition QueryEngine_Insert :: "int \<Rightarrow> bytes \<Rightarrow> int \<Rightarrow> (table, bool) comp" where
  "QueryEngine_Insert rid name val = Table_Insert \<lparr>rec_id = rid, rec_name = name, rec_value = val\<rparr>"

definition QueryEngine_SelectById :: "int \<Rightarrow> (table, Record option) comp" where
  "QueryEngine_SelectById rid = Table_Select True rid"

definition QueryEngine_SelectWhere :: "(Record \<Rightarrow> bool) \<Rightarrow> (table, Record list) comp" where
  "QueryEngine_SelectWhere p = Table_SelectWhere p"

definition QueryEngine_UpdateValue :: "int \<Rightarrow> int \<Rightarrow> (table, bool) comp" where
  "QueryEngine_UpdateValue rid new_value = Table_Update rid (\<lambda>r. r\<lparr>rec_value := new_value\<rparr>)"

definition QueryEngine_DeleteById :: "int \<Rightarrow> (table, bool) comp" where
  "QueryEngine_DeleteById rid = Table_Delete rid"

end
