(* ===== verification/Rpc_Message.thy ===== *)
theory Rpc_Message
  imports Bytes
begin

text \<open>
  Messages between the nodes and their wire format (\<open>src/src/rpc/rpc_message.h\<close>). Integers are
  32 bits in network order; terms and node ids are signed.
\<close>

section \<open>Messages and format\<close>

datatype RpcMessageType = REQUEST_VOTE | REQUEST_VOTE_REPLY | APPEND_ENTRIES | APPEND_ENTRIES_REPLY | PING | PONG

record RpcMessage =
  msg_type :: RpcMessageType
  msg_term :: int
  sender_id :: int
  payload :: bytes

primrec msg_type_code :: "RpcMessageType \<Rightarrow> int" where
  "msg_type_code REQUEST_VOTE = 0"
| "msg_type_code REQUEST_VOTE_REPLY = 1"
| "msg_type_code APPEND_ENTRIES = 2"
| "msg_type_code APPEND_ENTRIES_REPLY = 3"
| "msg_type_code PING = 4"
| "msg_type_code PONG = 5"

definition msg_type_of :: "int \<Rightarrow> RpcMessageType" where
  "msg_type_of c = (if c = 0 then REQUEST_VOTE else if c = 1 then REQUEST_VOTE_REPLY
     else if c = 2 then APPEND_ENTRIES else if c = 3 then APPEND_ENTRIES_REPLY
     else if c = 4 then PING else PONG)"

text \<open>
  The size of the body is computed in 32 bits; when it wraps around, the writes go past the
  end of the buffer.
\<close>

definition SerializeRpcMessage :: "RpcMessage \<Rightarrow> bytes res" where
  "SerializeRpcMessage m =
     (let payload_size = to_u32 (int (length (payload m)));
          body_size = to_u32 (1 + 4 * 3 + payload_size);
          writes = [be_bytes 4 body_size, le_bytes 1 (msg_type_code (msg_type m)),
                    be_bytes 4 (to_u32 (msg_term m)), be_bytes 4 (to_u32 (sender_id m)),
                    be_bytes 4 payload_size, take (nat payload_size) (payload m)]
      in if length (concat writes) > 4 + nat body_size then Inl Undefined
         else Inr (fst (fold put_bytes writes (replicate (4 + nat body_size) 0, 0))))"

definition DeserializeRpcMessage :: "bytes \<Rightarrow> RpcMessage option" where
  "DeserializeRpcMessage bs =
     (let size = length bs in
      if size < 17 then None
      else if be_uint (read_at bs 0 4) \<noteq> int (size - 4) then None
      else
        let type_code = le_uint (read_at bs 4 1) in
        if type_code > msg_type_code PONG then None
        else
          let the_term = to_i32 (be_uint (read_at bs 5 4));
              sender = to_i32 (be_uint (read_at bs 9 4));
              payload_size = be_uint (read_at bs 13 4)
          in if payload_size \<noteq> int (size - 17) then None
             else Some \<lparr>msg_type = msg_type_of type_code, msg_term = the_term, sender_id = sender,
                         payload = read_at bs 17 (nat payload_size)\<rparr>)"

definition message_ok :: "RpcMessage \<Rightarrow> bool" where
  "message_ok m \<longleftrightarrow> in_i32 (msg_term m) \<and> in_i32 (sender_id m) \<and> 13 + length (payload m) < 2 ^ 32"

definition msg_header :: "RpcMessage \<Rightarrow> bytes" where
  "msg_header m = be_bytes 4 (13 + int (length (payload m))) @ le_bytes 1 (msg_type_code (msg_type m)) @
     be_bytes 4 (to_u32 (msg_term m)) @ be_bytes 4 (to_u32 (sender_id m)) @
     be_bytes 4 (int (length (payload m)))"

section \<open>Round trip\<close>

lemma msg_type_of_code [simp]: "msg_type_of (msg_type_code ty) = ty"
  by (cases ty) (auto simp: msg_type_of_def)

lemma msg_type_code_range: "0 \<le> msg_type_code ty \<and> msg_type_code ty \<le> 5"
  by (cases ty) auto

lemma length_msg_header [simp]: "length (msg_header m) = 17"
  by (simp add: msg_header_def)

lemma message_sizes:
  assumes "message_ok m"
  shows "to_u32 (int (length (payload m))) = int (length (payload m))"
    and "to_u32 (13 + int (length (payload m))) = 13 + int (length (payload m))"
  using assms by (auto simp: message_ok_def in_u32_def intro!: to_u32_id)

lemma SerializeRpcMessage_layout:
  assumes "message_ok m"
  shows "SerializeRpcMessage m = Inr (msg_header m @ payload m)"
proof -
  have "nat (13 + int (length (payload m))) = 13 + length (payload m)" by simp
  then show ?thesis
    using message_sizes [OF assms]
    unfolding SerializeRpcMessage_def Let_def fold_put_bytes_from_start
    by (simp add: msg_header_def del: le_bytes.simps)
qed

lemma msg_header_reads:
  assumes "message_ok m" and "bs = msg_header m @ rest"
  shows "be_uint (read_at bs 0 4) = 13 + int (length (payload m))"
    and "le_uint (read_at bs 4 1) = msg_type_code (msg_type m)"
    and "to_i32 (be_uint (read_at bs 5 4)) = msg_term m"
    and "to_i32 (be_uint (read_at bs 9 4)) = sender_id m"
    and "be_uint (read_at bs 13 4) = int (length (payload m))"
  using assms msg_type_code_range [of "msg_type m"] message_sizes [OF assms(1)]
  by (simp_all add: msg_header_def read_at_skip read_at_front message_ok_def le_uint_byte
      del: le_bytes.simps)

lemma message_reads:
  assumes "message_ok m"
  shows "DeserializeRpcMessage (msg_header m @ payload m) = Some m"
proof -
  note hd = msg_header_reads [OF assms refl, of "payload m"]
  have "read_at (msg_header m @ payload m) 17 (length (payload m)) = payload m"
    by (simp add: read_at_def)
  then show ?thesis
    unfolding DeserializeRpcMessage_def Let_def hd
    using msg_type_code_range [of "msg_type m"] by simp
qed

text \<open>
  C16. Round trip of the wire format: a message whose fields fit their widths is serialized
  without overrunning the buffer, and the bytes are parsed as the same message.
\<close>

theorem message_round_trip:
  assumes "message_ok m"
  shows "\<exists>bs. SerializeRpcMessage m = Inr bs \<and> length bs = 17 + length (payload m) \<and>
    DeserializeRpcMessage bs = Some m"
  using SerializeRpcMessage_layout [OF assms] message_reads [OF assms] by simp

theorem message_round_trip_witness:
  "\<exists>bs. SerializeRpcMessage \<lparr>msg_type = PONG, msg_term = -1, sender_id = 3, payload = [49]\<rparr> = Inr bs \<and>
    length bs = 18 \<and>
    DeserializeRpcMessage bs = Some \<lparr>msg_type = PONG, msg_term = -1, sender_id = 3, payload = [49]\<rparr>"
  using message_round_trip [of "\<lparr>msg_type = PONG, msg_term = -1, sender_id = 3, payload = [49]\<rparr>"]
  by (simp add: message_ok_def in_i32_def)

text \<open>
  C17. The parser is exact: bytes that it accepts are the serialization of the message it
  returns, so no two byte strings stand for the same message and nothing trails it.
\<close>

theorem message_parse_exact:
  assumes "DeserializeRpcMessage bs = Some m" and "length bs < 2 ^ 32"
  shows "message_ok m \<and> SerializeRpcMessage m = Inr bs"
proof -
  have parts: "17 \<le> length bs" "be_uint (read_at bs 0 4) = int (length bs - 4)"
    "le_uint (read_at bs 4 1) \<le> 5" "be_uint (read_at bs 13 4) = int (length bs - 17)"
    and m: "m = \<lparr>msg_type = msg_type_of (le_uint (read_at bs 4 1)), msg_term = to_i32 (be_uint (read_at bs 5 4)),
      sender_id = to_i32 (be_uint (read_at bs 9 4)), payload = drop 17 bs\<rparr>"
    using assms(1) by (auto simp: DeserializeRpcMessage_def Let_def read_at_def split: if_splits)
  have len: "length (payload m) = length bs - 17" using m by simp
  have ok: "message_ok m" using m assms(2) parts(1) by (simp add: message_ok_def)
  have u32: "to_u32 (to_i32 (be_uint (read_at bs k 4))) = be_uint (read_at bs k 4)" if "k + 4 \<le> 17" for k
    using that parts(1) be_uint_u32 [of "read_at bs k 4"] by (simp add: to_u32_to_i32)
  have code: "msg_type_code (msg_type_of (le_uint (read_at bs 4 1))) = le_uint (read_at bs 4 1)"
    using parts(3) le_uint_range [of "read_at bs 4 1"] by (auto simp: msg_type_of_def)
  have byte: "le_bytes 1 (le_uint (read_at bs 4 1)) = read_at bs 4 1"
    using le_bytes_le_uint [of "read_at bs 4 1"] parts(1) by simp
  have be: "be_bytes 4 (be_uint (read_at bs k 4)) = read_at bs k 4" if "k + 4 \<le> 17" for k
    using that parts(1) by (intro be_bytes_be_uint) simp
  have "msg_header m = read_at bs 0 4 @ read_at bs 4 1 @ read_at bs 5 4 @ read_at bs 9 4 @ read_at bs 13 4"
  proof -
    have "13 + int (length bs - 17) = be_uint (read_at bs 0 4)" using parts(1,2) by simp
    then show ?thesis
      unfolding msg_header_def len using u32 [of 5] u32 [of 9] code byte be [of 0] be [of 5] be [of 9] be [of 13]
      by (simp add: m parts(4) [symmetric] del: le_bytes.simps)
  qed
  moreover have "bs = read_at bs 0 4 @ read_at bs 4 1 @ read_at bs 5 4 @ read_at bs 9 4 @ read_at bs 13 4 @ drop 17 bs"
    using parts(1) read_at_split [of 0 4 bs] read_at_split [of 4 1 bs] read_at_split [of 5 4 bs]
      read_at_split [of 9 4 bs] read_at_split [of 13 4 bs] by simp
  ultimately have "msg_header m @ payload m = bs" using m by simp
  then show ?thesis using SerializeRpcMessage_layout [OF ok] ok by simp
qed

theorem message_parse_exact_witness:
  "DeserializeRpcMessage [0, 0, 0, 13, 4, 0, 0, 0, 7, 0, 0, 0, 2, 0, 0, 0, 0] =
     Some \<lparr>msg_type = PING, msg_term = 7, sender_id = 2, payload = []\<rparr> \<and>
   SerializeRpcMessage \<lparr>msg_type = PING, msg_term = 7, sender_id = 2, payload = []\<rparr> =
     Inr [0, 0, 0, 13, 4, 0, 0, 0, 7, 0, 0, 0, 2, 0, 0, 0, 0]"
proof -
  have "DeserializeRpcMessage [0, 0, 0, 13, 4, 0, 0, 0, 7, 0, 0, 0, 2, 0, 0, 0, 0] =
     Some \<lparr>msg_type = PING, msg_term = 7, sender_id = 2, payload = []\<rparr>"
    by code_simp
  with message_parse_exact [OF this] show ?thesis by simp
qed

end
