(* ===== verification/Rpc_Transport.thy ===== *)
theory Rpc_Transport
  imports Rpc_Message
begin

text \<open>
  Moving messages over a byte stream (\<open>src/src/rpc/rpc_client.cpp\<close>,
  \<open>src/src/rpc/rpc_server.cpp\<close>).

  The incoming side of a connection is the list of the segments that \<open>recv\<close> will see: a call
  returns the next segment, or as much of it as fits the buffer; an empty segment stands for a
  call that returns 0 or an error, as does the end of the list. The outgoing side is the list
  of the results of the \<open>send\<close> calls. The client's attempts to connect are lists of the results
  of its system calls. The threads of the server are the subject of \<open>Rpc_Server\<close>.
\<close>

section \<open>Sending and receiving\<close>

definition kMaxMessageSize :: int where
  "kMaxMessageSize = 16 * 1024 * 1024"

fun recv :: "nat \<Rightarrow> bytes list \<Rightarrow> bytes \<times> bytes list" where
  "recv n [] = ([], [])"
| "recv n (c # cs) = (take n c, if length c \<le> n then cs else drop n c # cs)"

text \<open>The loop of \<open>ReceiveAll\<close>: \<open>n\<close> is \<open>size - received\<close>.\<close>

function ReceiveAll :: "nat \<Rightarrow> bytes list \<Rightarrow> bytes option \<times> bytes list" where
  "ReceiveAll n cs =
     (if n = 0 then (Some [], cs)
      else (case recv n cs of (got, cs') \<Rightarrow>
        if got = [] then (None, cs')
        else (case ReceiveAll (n - length got) cs' of
            (None, cs'') \<Rightarrow> (None, cs'')
          | (Some bs, cs'') \<Rightarrow> (Some (got @ bs), cs''))))"
  by pat_completeness auto
termination by (relation "measure fst") auto

declare ReceiveAll.simps [simp del]

definition ReceiveMessage :: "bytes list \<Rightarrow> RpcMessage option \<times> bytes list" where
  "ReceiveMessage cs = (case ReceiveAll 4 cs of
     (None, cs') \<Rightarrow> (None, cs')
   | (Some network_size, cs') \<Rightarrow>
       let body_size = be_uint network_size in
       if body_size < 13 \<or> body_size > kMaxMessageSize then (None, cs')
       else (case ReceiveAll (nat body_size) cs' of
           (None, cs'') \<Rightarrow> (None, cs'')
         | (Some body, cs'') \<Rightarrow> (DeserializeRpcMessage (network_size @ body), cs'')))"

text \<open>
  The loop of \<open>SendAll\<close>: \<open>results\<close> are what the calls of \<open>send\<close> return, at most the number of
  bytes passed; the second component is what went on the wire.
\<close>

fun SendAll :: "bytes \<Rightarrow> int list \<Rightarrow> bool \<times> bytes" where
  "SendAll bs results =
     (if bs = [] then (True, [])
      else (case results of
          [] \<Rightarrow> (False, [])
        | r # rs \<Rightarrow>
            if r \<le> 0 then (False, [])
            else let k = min (nat r) (length bs) in
              (case SendAll (drop k bs) rs of (ok, wire) \<Rightarrow> (ok, take k bs @ wire))))"

declare SendAll.simps [simp del]

section \<open>The server's connection handler and the client's request\<close>

text \<open>
  \<open>HandleConnection\<close> with the handler as a computation on the server's state; the result is
  what the server puts on the wire.
\<close>

definition HandleConnection ::
  "(RpcMessage \<Rightarrow> ('s, RpcMessage) comp) \<Rightarrow> bytes list \<Rightarrow> int list \<Rightarrow> ('s, bytes) comp" where
  "HandleConnection handler incoming sends =
     (case ReceiveMessage incoming of
       (None, _) \<Rightarrow> returnM []
     | (Some request, _) \<Rightarrow>
         bindM (handler request) (\<lambda>reply.
         bindM (liftM (SerializeRpcMessage reply)) (\<lambda>bs.
         returnM (snd (SendAll bs sends)))))"

text \<open>
  Connecting: an attempt holds what the system calls return for one address: the descriptor,
  the flags, whether the socket could be made non-blocking, the outcome of \<open>connect\<close> and of
  waiting for it, the pending error (\<open>None\<close> when \<open>getsockopt\<close> fails), and whether the flags
  could be restored. The descriptors that are opened and closed are recorded in order.
\<close>

datatype connect_result = Connected | In_Progress | Connect_Failed

record attempt =
  at_socket :: int
  at_flags :: int
  at_nonblocking :: bool
  at_connect :: connect_result
  at_writable :: bool
  at_error :: "int option"
  at_restored :: bool

datatype fd_event = Opened int | Closed_Fd int

definition WaitForWritable :: "attempt \<Rightarrow> bool" where
  "WaitForWritable a = at_writable a"

text \<open>The loop over the addresses; the first argument is \<open>socket_fd\<close>.\<close>

fun connect_loop :: "int \<Rightarrow> attempt list \<Rightarrow> int \<times> fd_event list" where
  "connect_loop socket_fd [] = (socket_fd, [])"
| "connect_loop socket_fd (a # as) =
     (let fd = at_socket a;
          give_up = (case connect_loop (-1) as of (r, evs) \<Rightarrow> (r, Opened fd # Closed_Fd fd # evs))
      in
      if fd < 0 then connect_loop fd as
      else if at_flags a < 0 \<or> \<not> at_nonblocking a then give_up
      else if at_connect a \<noteq> Connected \<and> (at_connect a \<noteq> In_Progress \<or> \<not> WaitForWritable a) then give_up
      else if at_error a = None \<or> at_error a \<noteq> Some 0 \<or> \<not> at_restored a then give_up
      else (fd, [Opened fd]))"

text \<open>
  \<open>SendMessage\<close>: \<open>has_out\<close> says whether \<open>out_reply\<close> is a valid pointer, \<open>addresses\<close> what happens
  for each resolved address (\<open>None\<close> when \<open>getaddrinfo\<close> fails), \<open>incoming\<close> what the peer sends
  back. The result is the reply, or \<open>None\<close> for \<open>false\<close>, and what the client put on the wire,
  with the descriptors opened and closed. The descriptor is not closed when serialization
  throws.
\<close>

definition SendMessage ::
  "bool \<Rightarrow> int \<Rightarrow> int \<Rightarrow> attempt list option \<Rightarrow> RpcMessage \<Rightarrow> int list \<Rightarrow> bytes list \<Rightarrow>
   (RpcMessage option \<times> bytes) res \<times> fd_event list" where
  "SendMessage has_out port timeout_ms addresses m sends incoming =
     (if \<not> has_out \<or> port \<le> 0 \<or> port > 65535 \<or> timeout_ms < 0 then (Inr (None, []), [])
      else (case addresses of
          None \<Rightarrow> (Inr (None, []), [])
        | Some as \<Rightarrow> (case connect_loop (-1) as of (socket_fd, evs) \<Rightarrow>
            if socket_fd < 0 then (Inr (None, []), evs)
            else (case SerializeRpcMessage m of
                Inl e \<Rightarrow> (Inl e, evs)
              | Inr bs \<Rightarrow> (case SendAll bs sends of (ok, wire) \<Rightarrow>
                  (Inr (if ok then fst (ReceiveMessage incoming) else None, wire), evs @ [Closed_Fd socket_fd]))))))"

text \<open>The descriptors that are open after a list of events.\<close>

fun left_open :: "fd_event list \<Rightarrow> int list \<Rightarrow> int list" where
  "left_open [] fds = fds"
| "left_open (Opened fd # evs) fds = left_open evs (fd # fds)"
| "left_open (Closed_Fd fd # evs) fds = left_open evs (remove1 fd fds)"

text \<open>A connection that delivers all of the bytes that were sent, in segments of any size.\<close>

definition delivers :: "bytes list \<Rightarrow> bytes \<Rightarrow> bool" where
  "delivers cs bs \<longleftrightarrow> concat cs = bs \<and> [] \<notin> set cs"

text \<open>An address to which the connection succeeds after waiting.\<close>

definition demo_attempt :: attempt where
  "demo_attempt = \<lparr>at_socket = 6, at_flags = 2, at_nonblocking = True, at_connect = In_Progress, at_writable = True,
     at_error = Some 0, at_restored = True\<rparr>"

section \<open>Correctness\<close>

lemma ReceiveAll_delivers:
  assumes "delivers cs (bs @ rest)" and "n = length bs"
  shows "\<exists>cs'. ReceiveAll n cs = (Some bs, cs') \<and> delivers cs' rest"
  using assms
proof (induction n arbitrary: cs bs rule: less_induct)
  case (less n)
  show ?case
  proof (cases "n = 0")
    case True
    then show ?thesis using less.prems by (subst ReceiveAll.simps) simp
  next
    case False
    then obtain c cs1 where cs: "cs = c # cs1" "c \<noteq> []"
      using less.prems by (cases cs) (auto simp: delivers_def)
    let ?got = "take n c" and ?cs' = "if length c \<le> n then cs1 else drop n c # cs1"
    have eq: "c @ concat cs1 = bs @ rest" using less.prems(1) cs by (simp add: delivers_def)
    have got: "?got = take (length ?got) bs"
      using arg_cong [OF eq, of "take (length ?got)"] less.prems(2) by (simp add: min_def split: if_splits)
    have "delivers ?cs' (drop (length ?got) bs @ rest)"
    proof (cases "length c \<le> n")
      case True
      then have "concat cs1 = drop (length c) (bs @ rest)" using eq by (metis append_eq_conv_conj)
      then show ?thesis using True less.prems cs by (simp add: delivers_def)
    next
      case False
      then have "drop n c @ concat cs1 = drop n (bs @ rest)"
        using arg_cong [OF eq, of "drop n"] by simp
      then show ?thesis using False less.prems cs by (simp add: delivers_def)
    qed
    moreover have "n - length ?got < n" "n - length ?got = length (drop (length ?got) bs)"
      using False cs(2) less.prems(2) by auto
    ultimately obtain cs'' where r: "ReceiveAll (n - length ?got) ?cs' = (Some (drop (length ?got) bs), cs'')"
      "delivers cs'' rest"
      using less.IH by metis
    have "?got \<noteq> []" using False cs(2) by simp
    then have "ReceiveAll n cs = (Some (?got @ drop (length ?got) bs), cs'')"
      using False r(1) cs(1) by (subst ReceiveAll.simps) simp
    then show ?thesis using r(2) got by (metis append_take_drop_id)
  qed
qed

lemma ReceiveMessage_delivers:
  assumes "message_ok m" and "13 + int (length (payload m)) \<le> kMaxMessageSize"
    and "delivers cs ((msg_header m @ payload m) @ rest)"
  shows "\<exists>cs'. ReceiveMessage cs = (Some m, cs') \<and> delivers cs' rest"
proof -
  let ?bs = "msg_header m @ payload m"
  have "delivers cs (take 4 ?bs @ (drop 4 ?bs @ rest))" using assms(3) by (metis append.assoc append_take_drop_id)
  from ReceiveAll_delivers [OF this, of 4] obtain cs1 where
    1: "ReceiveAll 4 cs = (Some (take 4 ?bs), cs1)" "delivers cs1 (drop 4 ?bs @ rest)" by auto
  have size: "be_uint (take 4 ?bs) = 13 + int (length (payload m))"
    using msg_header_reads(1) [OF assms(1) refl, of "payload m"] by (simp add: read_at_def)
  have "nat (be_uint (take 4 ?bs)) = length (drop 4 ?bs)" unfolding size by simp
  from ReceiveAll_delivers [OF 1(2) this] obtain cs2 where
    2: "ReceiveAll (nat (be_uint (take 4 ?bs))) cs1 = (Some (drop 4 ?bs), cs2)" "delivers cs2 rest" by blast
  have "\<not> (be_uint (take 4 ?bs) < 13 \<or> kMaxMessageSize < be_uint (take 4 ?bs))"
    using size assms(2) by simp
  then have "ReceiveMessage cs = (DeserializeRpcMessage (take 4 ?bs @ drop 4 ?bs), cs2)"
    unfolding ReceiveMessage_def 1(1) by (simp add: Let_def 2(1) del: take_append drop_append)
  then show ?thesis using 2(2) message_reads [OF assms(1)] unfolding append_take_drop_id by simp
qed

lemma SendAll_wire: "SendAll bs results = (True, wire) \<Longrightarrow> wire = bs"
proof (induction bs results arbitrary: wire rule: SendAll.induct)
  case (1 bs results)
  show ?case
  proof (cases "bs = [] \<or> results = []")
    case True
    then show ?thesis using 1(2) by (subst (asm) SendAll.simps) (auto split: if_splits)
  next
    case False
    then obtain r rs where rs: "results = r # rs" by (cases results) auto
    let ?k = "min (nat r) (length bs)"
    obtain ok w where s: "SendAll (drop ?k bs) rs = (ok, w)" by (cases "SendAll (drop ?k bs) rs")
    with False rs 1(2) have "0 < r" "ok" "wire = take ?k bs @ w"
      by (subst (asm) SendAll.simps, auto simp: Let_def split: if_splits)+
    with 1(1) [OF _ rs, of ?k w] False s have "w = drop ?k bs" by simp
    then show ?thesis using \<open>wire = take ?k bs @ w\<close> by simp
  qed
qed

text \<open>
  C18. Framing: however the stream cuts the bytes of a message into segments, \<open>ReceiveMessage\<close>
  returns exactly that message, without waiting for more and without taking bytes that follow
  it, provided the message does not exceed the size limit.
\<close>

theorem receive_any_segmentation:
  assumes "message_ok m" and "13 + int (length (payload m)) \<le> kMaxMessageSize"
    and "SerializeRpcMessage m = Inr bs" and "delivers cs (bs @ rest)"
  shows "\<exists>cs'. ReceiveMessage cs = (Some m, cs') \<and> delivers cs' rest"
  using ReceiveMessage_delivers [OF assms(1,2), of cs rest] SerializeRpcMessage_layout [OF assms(1)] assms(3,4)
  by simp

theorem receive_any_segmentation_witness:
  "\<exists>cs'. ReceiveMessage [[0, 0], [0, 13, 4, 0], [0, 0, 7, 0, 0, 0, 2, 0], [0, 0, 0, 99]] =
     (Some \<lparr>msg_type = PING, msg_term = 7, sender_id = 2, payload = []\<rparr>, cs') \<and> delivers cs' [99]"
proof (rule receive_any_segmentation)
  show "SerializeRpcMessage \<lparr>msg_type = PING, msg_term = 7, sender_id = 2, payload = []\<rparr> =
     Inr [0, 0, 0, 13, 4, 0, 0, 0, 7, 0, 0, 0, 2, 0, 0, 0, 0]" by code_simp
qed (simp_all add: message_ok_def in_i32_def kMaxMessageSize_def delivers_def)

text \<open>
  C19. A request and its reply: when the stream delivers what the client sent to the server
  and what the server sent back to the client, in segments of any size, the client gets the
  handler's reply to its message.
\<close>

theorem request_reply:
  assumes "message_ok m" and "13 + int (length (payload m)) \<le> kMaxMessageSize"
    and "message_ok r" and "13 + int (length (payload r)) \<le> kMaxMessageSize"
    and "handler m s = (Inr r, s')"
    and "SendMessage True port timeout (Some as) m csends replies = (Inr (result, request_wire), evs)"
    and "0 \<le> fst (connect_loop (-1) as)"
    and "fst (SendAll (msg_header m @ payload m) csends)" and "delivers there request_wire"
    and "HandleConnection handler there ssends s = (Inr reply_wire, s'')"
    and "fst (SendAll (msg_header r @ payload r) ssends)" and "delivers replies reply_wire"
    and "0 < port" and "port \<le> 65535" and "0 \<le> timeout"
  shows "result = Some r \<and> s'' = s'"
proof -
  obtain w1 where w1: "SendAll (msg_header m @ payload m) csends = (True, w1)"
    using assms(8) by (metis prod.collapse)
  have rq: "request_wire = msg_header m @ payload m" "result = fst (ReceiveMessage replies)"
    using assms(6,7,13-15) w1 SendAll_wire [OF w1] SerializeRpcMessage_layout [OF assms(1)]
    by (auto simp: SendMessage_def split: prod.splits if_splits)
  obtain w2 where w2: "SendAll (msg_header r @ payload r) ssends = (True, w2)"
    using assms(11) by (metis prod.collapse)
  obtain cs1 where "ReceiveMessage there = (Some m, cs1)"
    using ReceiveMessage_delivers [OF assms(1,2), of there "[]"] assms(9) rq(1) by auto
  then have "reply_wire = msg_header r @ payload r" "s'' = s'"
    using assms(5,10) w2 SendAll_wire [OF w2] SerializeRpcMessage_layout [OF assms(3)]
    by (simp_all add: HandleConnection_def run)
  with ReceiveMessage_delivers [OF assms(3,4), of replies "[]"] assms(12) rq(2) show ?thesis by auto
qed

theorem request_reply_witness:
  "SendMessage True 80 100 (Some [demo_attempt]) \<lparr>msg_type = PING, msg_term = 7, sender_id = 2, payload = []\<rparr> [3, 20]
     [[0, 0, 0, 14, 5, 0, 0], [0, 7, 0, 0, 0, 1, 0, 0, 0, 1, 49]] =
   (Inr (Some \<lparr>msg_type = PONG, msg_term = 7, sender_id = 1, payload = [49]\<rparr>,
     [0, 0, 0, 13, 4, 0, 0, 0, 7, 0, 0, 0, 2, 0, 0, 0, 0]), [Opened 6, Closed_Fd 6])"
proof -
  let ?m = "\<lparr>msg_type = PING, msg_term = 7, sender_id = 2, payload = []\<rparr>"
  let ?r = "\<lparr>msg_type = PONG, msg_term = 7, sender_id = 1, payload = [49]\<rparr>"
  let ?w1 = "[0, 0, 0, 13, 4, 0, 0, 0, 7, 0, 0, 0, 2, 0, 0, 0, 0]"
  let ?w2 = "[0, 0, 0, 14, 5, 0, 0, 0, 7, 0, 0, 0, 1, 0, 0, 0, 1, 49]"
  have "\<exists>result. SendMessage True 80 100 (Some [demo_attempt]) ?m [3, 20]
      [[0, 0, 0, 14, 5, 0, 0], [0, 7, 0, 0, 0, 1, 0, 0, 0, 1, 49]] = (Inr (result, ?w1), [Opened 6, Closed_Fd 6])"
    by (rule exI) code_simp
  then obtain result where s: "SendMessage True 80 100 (Some [demo_attempt]) ?m [3, 20]
      [[0, 0, 0, 14, 5, 0, 0], [0, 7, 0, 0, 0, 1, 0, 0, 0, 1, 49]] = (Inr (result, ?w1), [Opened 6, Closed_Fd 6])" ..
  have h: "HandleConnection (\<lambda>m. returnM ?r) [[0, 0, 0], [13, 4, 0, 0, 0, 7, 0, 0, 0, 2, 0, 0, 0, 0]] [18] (0::nat) =
      (Inr ?w2, 0)"
    by code_simp
  have sends: "fst (SendAll (msg_header ?m @ payload ?m) [3, 20])" "fst (SendAll (msg_header ?r @ payload ?r) [18])"
    by code_simp+
  have ok: "message_ok ?m" "message_ok ?r" by (simp_all add: message_ok_def in_i32_def)
  have c: "0 \<le> fst (connect_loop (-1) [demo_attempt])" by code_simp
  have "result = Some ?r \<and> (0::nat) = 0"
    by (rule request_reply [OF ok(1) _ ok(2) _ _ s c sends(1) _ h sends(2)])
      (simp_all add: kMaxMessageSize_def delivers_def returnM_def)
  with s show ?thesis by simp
qed

section \<open>Descriptors of the client\<close>

lemma connect_loop_open:
  "connect_loop k as = (r, evs) \<Longrightarrow> left_open evs fds = (if 0 \<le> r \<and> r \<noteq> k then r # fds else fds) \<or> 0 \<le> k"
proof (induction as arbitrary: k r evs fds)
  case (Cons a as)
  obtain r' evs' where rest: "connect_loop (-1) as = (r', evs')" by fastforce
  show ?case
  proof (cases "at_socket a < 0")
    case True
    then have "connect_loop (at_socket a) as = (r, evs)" using Cons.prems by (simp add: Let_def)
    from Cons.IH [OF this, of fds] True show ?thesis by auto
  next
    case False
    with Cons.prems rest Cons.IH [OF rest, of fds] show ?thesis
      by (auto simp: Let_def split: if_splits)
  qed
qed simp

text \<open>
  C35. The client does not leak descriptors: after \<open>SendMessage\<close> has returned, with whatever
  outcome, every descriptor that it opened while trying the addresses is closed again. When
  the serialization of the message throws, the connected socket stays open.
\<close>

theorem send_message_closes:
  assumes "SendMessage has_out port timeout addresses m sends incoming = (r, evs)"
  shows "(case r of Inr _ \<Rightarrow> left_open evs fds = fds
    | Inl _ \<Rightarrow> \<exists>fd \<ge> 0. left_open evs fds = fd # fds)"
proof (cases addresses)
  case None
  then show ?thesis using assms by (auto simp: SendMessage_def split: if_splits)
next
  case (Some as)
  obtain fd evs1 where c: "connect_loop (-1) as = (fd, evs1)" by fastforce
  have app: "left_open (es @ [Closed_Fd x]) fs = remove1 x (left_open es fs)" for es x fs
    by (induction es fs rule: left_open.induct) auto
  from connect_loop_open [OF c, of fds] assms c Some show ?thesis
    by (auto simp: SendMessage_def app split: if_splits sum.splits prod.splits)
qed

theorem send_message_closes_witness:
  "left_open (snd (SendMessage True 80 100 (Some [demo_attempt\<lparr>at_error := Some 111\<rparr>, demo_attempt])
     \<lparr>msg_type = PING, msg_term = 7, sender_id = 2, payload = []\<rparr> [0] [])) [3] = [3]"
proof -
  have "\<exists>x evs. SendMessage True 80 100 (Some [demo_attempt\<lparr>at_error := Some 111\<rparr>, demo_attempt])
     \<lparr>msg_type = PING, msg_term = 7, sender_id = 2, payload = []\<rparr> [0] [] = (Inr x, evs)"
    by (intro exI) code_simp
  then obtain x evs where s: "SendMessage True 80 100 (Some [demo_attempt\<lparr>at_error := Some 111\<rparr>, demo_attempt])
     \<lparr>msg_type = PING, msg_term = 7, sender_id = 2, payload = []\<rparr> [0] [] = (Inr x, evs)" by blast
  from send_message_closes [OF this, of "[3]"] s show ?thesis by simp
qed

end
