(* ===== verification/Rpc_Server.thy ===== *)
theory Rpc_Server
  imports Prelude
begin

text \<open>
  The life cycle of the RPC server (\<open>src/src/rpc/rpc_server.{h,cpp}\<close>): \<open>Start\<close>, the accept
  thread, one thread per connection, and \<open>Stop\<close>, interleaved. A step is what a thread does
  between two points at which another thread can see the difference: a section under a mutex
  or a system call. The results of system calls are part of the step. The descriptors that
  the process has open belong to the kernel: \<open>accept\<close> returns any descriptor that is not open,
  so the number of a closed descriptor can come back. \<open>Start\<close> and \<open>Stop\<close> are called by one
  thread. What a connection thread reads and writes is the subject of \<open>Rpc_Transport\<close>.
\<close>

section \<open>State\<close>

text \<open>Where the accept thread is: before the mutex, in \<open>select\<close>, with a new connection before
  it is registered, before its thread is created, or returned.\<close>

datatype accept_pc = At_Top | At_Select int | At_Insert int | At_Spawn int | At_End

datatype handler_pc = Serving | Closed | Finished

datatype stop_pc =
    Stop_Idle
  | Stop_Close int "int set"
  | Stop_Join_Accept
  | Stop_Join_Clients "nat list"
  | Stop_Returned

text \<open>
  \<open>client_threads\<close> holds positions in \<open>threads\<close>, the list of all connection threads ever
  created with their descriptors; \<open>open_fds\<close> and \<open>shut_fds\<close> are the descriptors that are open
  and those of them that were shut down by \<open>Stop\<close>.
\<close>

record server =
  srv_port :: int
  listen_fd :: int
  srv_running :: bool
  accept_thread :: "accept_pc option"
  client_threads :: "nat list"
  active_connections :: "int set"
  threads :: "(int \<times> handler_pc) list"
  stop_call :: stop_pc
  open_fds :: "int set"
  shut_fds :: "int set"

definition RpcServer :: "int \<Rightarrow> bool \<Rightarrow> server res" where
  "RpcServer port has_handler =
     (if port < 0 \<or> port > 65535 \<or> \<not> has_handler
      then Inl (Invalid_Argument ''invalid RPC server configuration'')
      else Inr \<lparr>srv_port = port, listen_fd = -1, srv_running = False, accept_thread = None, client_threads = [],
                active_connections = {}, threads = [], stop_call = Stop_Idle, open_fds = {}, shut_fds = {}\<rparr>)"

definition GetPort :: "(server, int) comp" where
  "GetPort = getM srv_port"

definition open_fd :: "int \<Rightarrow> server \<Rightarrow> server" where
  "open_fd fd s = s\<lparr>open_fds := insert fd (open_fds s)\<rparr>"

definition close_fd :: "int \<Rightarrow> server \<Rightarrow> server" where
  "close_fd fd s = s\<lparr>open_fds := open_fds s - {fd}, shut_fds := shut_fds s - {fd}\<rparr>"

section \<open>Start\<close>

text \<open>
  \<open>sock\<close> is the result of \<open>socket\<close>, the other arguments say whether \<open>bind\<close>, \<open>listen\<close> and
  \<open>getsockname\<close> succeed and which port was bound. Assigning to a joinable \<open>std::thread\<close>
  terminates the program.
\<close>

definition Start :: "int \<Rightarrow> bool \<Rightarrow> bool \<Rightarrow> bool \<Rightarrow> int \<Rightarrow> (server, unit) comp" where
  "Start sock bind_ok listen_ok name_ok bound =
     bindM (getM srv_running) (\<lambda>running.
     if running then returnM ()
     else
       thenM (modifyM (\<lambda>s. s\<lparr>listen_fd := sock\<rparr>)) (
       if sock < 0 then throwM (Runtime_Error ''failed to create RPC socket'')
       else
         thenM (modifyM (open_fd sock)) (
         if \<not> bind_ok \<or> \<not> listen_ok then
           thenM (modifyM (\<lambda>s. (close_fd sock s)\<lparr>listen_fd := -1\<rparr>)) (
           throwM (Runtime_Error ''failed to bind or listen on RPC socket''))
         else if \<not> name_ok then
           thenM (modifyM (\<lambda>s. (close_fd sock s)\<lparr>listen_fd := -1\<rparr>)) (
           throwM (Runtime_Error ''failed to determine RPC server port''))
         else
           thenM (modifyM (\<lambda>s. s\<lparr>srv_port := bound, srv_running := True\<rparr>)) (
           bindM (getM accept_thread) (\<lambda>t.
           if t \<noteq> None then throwM Undefined
           else modifyM (\<lambda>s. s\<lparr>accept_thread := Some At_Top\<rparr>))))))"

section \<open>The accept thread\<close>

definition accept_goes_to :: "accept_pc \<Rightarrow> server \<Rightarrow> server" where
  "accept_goes_to pc s = s\<lparr>accept_thread := Some pc\<rparr>"

text \<open>The check of \<open>running_\<close> at the head of the loop.\<close>

definition loop_head :: "server \<Rightarrow> server" where
  "loop_head s = (if \<not> srv_running s then accept_goes_to At_End s else accept_goes_to (At_Select (listen_fd s)) s)"

text \<open>\<open>select\<close> or \<open>accept\<close> fails: the loop goes on while the server is running.\<close>

definition call_failed :: "server \<Rightarrow> server" where
  "call_failed s = (if \<not> srv_running s then accept_goes_to At_End s else accept_goes_to At_Top s)"

definition connection_accepted :: "int \<Rightarrow> server \<Rightarrow> server" where
  "connection_accepted fd s = accept_goes_to (At_Insert fd) (open_fd fd s)"

definition register_connection :: "int \<Rightarrow> server \<Rightarrow> server" where
  "register_connection fd s =
     (if \<not> srv_running s then accept_goes_to At_End (close_fd fd s)
      else accept_goes_to (At_Spawn fd) (s\<lparr>active_connections := insert fd (active_connections s)\<rparr>))"

definition spawn_handler :: "int \<Rightarrow> server \<Rightarrow> server" where
  "spawn_handler fd s = accept_goes_to At_Top
     (s\<lparr>client_threads := client_threads s @ [length (threads s)], threads := threads s @ [(fd, Serving)]\<rparr>)"

section \<open>Connection threads and Stop\<close>

text \<open>The end of \<open>HandleConnection\<close>: closing the descriptor, and later removing its number.\<close>

definition handler_closes :: "nat \<Rightarrow> server \<Rightarrow> server" where
  "handler_closes k s = (let fd = fst (threads s ! k) in
     (close_fd fd s)\<lparr>threads := (threads s)[k := (fd, Closed)]\<rparr>)"

definition handler_erases :: "nat \<Rightarrow> server \<Rightarrow> server" where
  "handler_erases k s = (let fd = fst (threads s ! k) in
     s\<lparr>active_connections := active_connections s - {fd}, threads := (threads s)[k := (fd, Finished)]\<rparr>)"

text \<open>
  \<open>Stop\<close>: the section under the mutex, closing the listener and shutting down the registered
  connections, and joining the accept thread and taking the vector of connection threads.
\<close>

definition Stop :: "server \<Rightarrow> server" where
  "Stop s = (if \<not> srv_running s \<and> accept_thread s = None then s\<lparr>stop_call := Stop_Returned\<rparr>
     else s\<lparr>srv_running := False, listen_fd := -1, stop_call := Stop_Close (listen_fd s) (active_connections s)\<rparr>)"

definition stop_close :: "int \<Rightarrow> int set \<Rightarrow> server \<Rightarrow> server" where
  "stop_close listener connections s =
     (let s' = (if listener \<ge> 0 then close_fd listener s else s) in
      s'\<lparr>shut_fds := shut_fds s' \<union> (connections \<inter> open_fds s'), stop_call := Stop_Join_Accept\<rparr>)"

definition stop_join_accept :: "server \<Rightarrow> server" where
  "stop_join_accept s = s\<lparr>accept_thread := None, client_threads := [], stop_call := Stop_Join_Clients (client_threads s)\<rparr>"

section \<open>Interleavings\<close>

datatype event =
    Ev_Start int bool bool bool int
  | Ev_Loop
  | Ev_Timeout
  | Ev_Fail
  | Ev_Accept int
  | Ev_Register
  | Ev_Spawn
  | Ev_Close nat
  | Ev_Erase nat
  | Ev_Stop
  | Ev_Stop_Close
  | Ev_Stop_Join
  | Ev_Stop_Done

text \<open>
  The state after an event, if it can happen. The flag says whether the kernel may hand out
  the number of a descriptor whose thread has closed it but not yet removed it from
  \<open>active_connections_\<close>.
\<close>

fun srv_step :: "bool \<Rightarrow> event \<Rightarrow> server \<Rightarrow> server option" where
  "srv_step reuse (Ev_Start sock b l n p) s =
     (if stop_call s \<in> {Stop_Idle, Stop_Returned} \<and> sock \<notin> open_fds s
      then Some ((snd (Start sock b l n p s))\<lparr>stop_call := Stop_Idle\<rparr>) else None)"
| "srv_step reuse Ev_Loop s = (if accept_thread s = Some At_Top then Some (loop_head s) else None)"
| "srv_step reuse Ev_Timeout s = (case accept_thread s of
     Some (At_Select l) \<Rightarrow> Some (accept_goes_to At_Top s) | _ \<Rightarrow> None)"
| "srv_step reuse Ev_Fail s = (case accept_thread s of
     Some (At_Select l) \<Rightarrow> Some (call_failed s) | _ \<Rightarrow> None)"
| "srv_step reuse (Ev_Accept fd) s = (case accept_thread s of
     Some (At_Select l) \<Rightarrow>
       if fd \<ge> 0 \<and> l \<in> open_fds s \<and> fd \<notin> open_fds s \<and> (reuse \<or> (fd, Closed) \<notin> set (threads s))
       then Some (connection_accepted fd s) else None
   | _ \<Rightarrow> None)"
| "srv_step reuse Ev_Register s = (case accept_thread s of
     Some (At_Insert fd) \<Rightarrow> Some (register_connection fd s) | _ \<Rightarrow> None)"
| "srv_step reuse Ev_Spawn s = (case accept_thread s of
     Some (At_Spawn fd) \<Rightarrow> Some (spawn_handler fd s) | _ \<Rightarrow> None)"
| "srv_step reuse (Ev_Close k) s =
     (if k < length (threads s) \<and> snd (threads s ! k) = Serving then Some (handler_closes k s) else None)"
| "srv_step reuse (Ev_Erase k) s =
     (if k < length (threads s) \<and> snd (threads s ! k) = Closed then Some (handler_erases k s) else None)"
| "srv_step reuse Ev_Stop s = (if stop_call s \<in> {Stop_Idle, Stop_Returned} then Some (Stop s) else None)"
| "srv_step reuse Ev_Stop_Close s = (case stop_call s of
     Stop_Close l cs \<Rightarrow> Some (stop_close l cs s) | _ \<Rightarrow> None)"
| "srv_step reuse Ev_Stop_Join s =
     (if stop_call s = Stop_Join_Accept \<and> accept_thread s \<in> {None, Some At_End} then Some (stop_join_accept s) else None)"
| "srv_step reuse Ev_Stop_Done s = (case stop_call s of
     Stop_Join_Clients ks \<Rightarrow>
       if (\<forall>k \<in> set ks. snd (threads s ! k) = Finished) then Some (s\<lparr>stop_call := Stop_Returned\<rparr>) else None
   | _ \<Rightarrow> None)"

inductive srv_reach :: "bool \<Rightarrow> server \<Rightarrow> bool" for reuse :: bool where
  init: "RpcServer port True = Inr s \<Longrightarrow> srv_reach reuse s"
| step: "srv_reach reuse s \<Longrightarrow> srv_step reuse e s = Some s' \<Longrightarrow> srv_reach reuse s'"

fun srv_run :: "bool \<Rightarrow> event list \<Rightarrow> server \<Rightarrow> server option" where
  "srv_run reuse [] s = Some s"
| "srv_run reuse (e # es) s = (case srv_step reuse e s of None \<Rightarrow> None | Some s' \<Rightarrow> srv_run reuse es s')"

end
