(* ===== verification/Rpc_Server_Stop.thy ===== *)
theory Rpc_Server_Stop
  imports Rpc_Server
begin

text \<open>
  Stopping the RPC server under every interleaving of its threads: who holds which
  descriptor, which threads are still to be joined, and what \<open>Stop\<close> has shut down.
\<close>

section \<open>Runs and predicates\<close>

text \<open>A connection comes and goes, and the server is stopped.\<close>

definition short_life :: "event list" where
  "short_life = [Ev_Start 3 True True True 80, Ev_Loop, Ev_Accept 4, Ev_Register, Ev_Spawn, Ev_Stop, Ev_Stop_Close,
     Ev_Close 0, Ev_Loop, Ev_Stop_Join, Ev_Erase 0, Ev_Stop_Done]"

text \<open>
  The first connection, number 4, is closed; its number is given to a second connection,
  which is registered; then the first thread removes the number. The server is stopped.
\<close>

definition number_reused :: "event list" where
  "number_reused = [Ev_Start 3 True True True 80, Ev_Loop, Ev_Accept 4, Ev_Register, Ev_Spawn, Ev_Close 0,
     Ev_Loop, Ev_Accept 4, Ev_Register, Ev_Erase 0, Ev_Spawn, Ev_Stop, Ev_Stop_Close, Ev_Loop, Ev_Stop_Join]"

definition new_server :: server where
  "new_server = \<lparr>srv_port = 0, listen_fd = -1, srv_running = False, accept_thread = None, client_threads = [],
     active_connections = {}, threads = [], stop_call = Stop_Idle, open_fds = {}, shut_fds = {}\<rparr>"

text \<open>Who has a descriptor open: the server as listener, the accept thread, the connection threads.\<close>

definition listener_fds :: "server \<Rightarrow> int list" where
  "listener_fds s = (if listen_fd s \<ge> 0 then [listen_fd s] else []) @
     (case stop_call s of Stop_Close l cs \<Rightarrow> if l \<ge> 0 then [l] else [] | _ \<Rightarrow> [])"

definition accept_fds :: "server \<Rightarrow> int list" where
  "accept_fds s = (case accept_thread s of Some (At_Insert fd) \<Rightarrow> [fd] | Some (At_Spawn fd) \<Rightarrow> [fd] | _ \<Rightarrow> [])"

definition serving :: "(int \<times> handler_pc) list \<Rightarrow> int list" where
  "serving ts = map fst (filter (\<lambda>t. snd t = Serving) ts)"

text \<open>The connection that is registered and waits for its thread.\<close>

definition spawning :: "server \<Rightarrow> int set" where
  "spawning s = (case accept_thread s of Some (At_Spawn fd) \<Rightarrow> {fd} | _ \<Rightarrow> {})"

text \<open>
  When numbers are not reused too early: a thread that has closed its descriptor has a number
  that nobody else has, the connections that are served or wait for a thread are registered,
  and \<open>Stop\<close> knows all of them or has shut them down.
\<close>

definition numbers_ok :: "server \<Rightarrow> bool" where
  "numbers_ok s \<longleftrightarrow> (\<forall>fd. (fd, Closed) \<in> set (threads s) \<longrightarrow> fd \<notin> open_fds s) \<and>
     set (serving (threads s)) \<union> spawning s \<subseteq> active_connections s \<and>
     (case stop_call s of
        Stop_Close l cs \<Rightarrow> set (serving (threads s)) \<union> spawning s \<subseteq> cs
      | Stop_Join_Accept \<Rightarrow> set (serving (threads s)) \<union> spawning s \<subseteq> shut_fds s
      | Stop_Join_Clients ks \<Rightarrow> set (serving (threads s)) \<union> spawning s \<subseteq> shut_fds s
      | _ \<Rightarrow> True)"

section \<open>Invariant\<close>

definition fds_ok :: "server \<Rightarrow> bool" where
  "fds_ok s \<longleftrightarrow> distinct (listener_fds s @ accept_fds s @ serving (threads s)) \<and>
     open_fds s = set (listener_fds s @ accept_fds s @ serving (threads s))"

definition unfinished :: "server \<Rightarrow> nat set" where
  "unfinished s = {k. k < length (threads s) \<and> snd (threads s ! k) \<noteq> Finished}"

definition joining :: "server \<Rightarrow> nat set" where
  "joining s = set (client_threads s) \<union> (case stop_call s of Stop_Join_Clients ks \<Rightarrow> set ks | _ \<Rightarrow> {})"

definition threads_ok :: "server \<Rightarrow> bool" where
  "threads_ok s \<longleftrightarrow> active_connections s \<subseteq> (\<lambda>k. fst (threads s ! k)) ` unfinished s \<union> spawning s \<and>
     unfinished s \<subseteq> joining s"

definition phase_ok :: "server \<Rightarrow> bool" where
  "phase_ok s \<longleftrightarrow>
     (if srv_running s then accept_thread s \<noteq> None \<and> stop_call s = Stop_Idle else listen_fd s < 0) \<and>
     (accept_thread s = None \<longrightarrow> client_threads s = []) \<and>
     (case stop_call s of
        Stop_Idle \<Rightarrow> srv_running s \<or> accept_thread s = None
      | Stop_Join_Clients ks \<Rightarrow> accept_thread s = None
      | Stop_Returned \<Rightarrow> accept_thread s = None
      | _ \<Rightarrow> True)"

definition srv_ok :: "server \<Rightarrow> bool" where
  "srv_ok s \<longleftrightarrow> fds_ok s \<and> threads_ok s \<and> phase_ok s"

lemmas srv_defs = accept_goes_to_def loop_head_def call_failed_def connection_accepted_def register_connection_def
  spawn_handler_def handler_closes_def handler_erases_def Rpc_Server.Stop_def stop_close_def stop_join_accept_def
  open_fd_def close_fd_def

lemma Start_state:
  "snd (Start sock b l n p s) =
     (if srv_running s then s
      else if sock < 0 then s\<lparr>listen_fd := sock\<rparr>
      else if \<not> b \<or> \<not> l \<or> \<not> n then s\<lparr>listen_fd := -1, open_fds := open_fds s - {sock}, shut_fds := shut_fds s - {sock}\<rparr>
      else s\<lparr>listen_fd := sock, open_fds := insert sock (open_fds s), srv_port := p, srv_running := True,
             accept_thread := (if accept_thread s = None then Some At_Top else accept_thread s)\<rparr>)"
  by (auto simp: Start_def steps open_fd_def close_fd_def)

lemma split_at: "k < length xs \<Longrightarrow> \<exists>ys zs. xs = ys @ xs ! k # zs \<and> (\<forall>y. xs[k := y] = ys @ y # zs)"
  by (metis id_take_nth_drop upd_conv_take_nth_drop)

lemma serving_simps [simp]:
  "serving [] = []" "serving ((fd, pc) # ts) = (if pc = Serving then fd # serving ts else serving ts)"
  "serving (ts @ us) = serving ts @ serving us"
  by (simp_all add: serving_def)

lemma phase_cong:
  assumes "phase_ok s" and "srv_running s' = srv_running s" and "listen_fd s' = listen_fd s" and "stop_call s' = stop_call s"
    and "accept_thread s = None \<longleftrightarrow> accept_thread s' = None" and "client_threads s' = client_threads s \<or> accept_thread s' \<noteq> None"
  shows "phase_ok s'"
  using assms by (cases "stop_call s") (auto simp: phase_ok_def)

lemma phase_step_threads:
  assumes "phase_ok s" and "srv_step reuse e s = Some s'"
    and "e \<in> {Ev_Loop, Ev_Timeout, Ev_Fail, Ev_Accept fd, Ev_Register, Ev_Spawn, Ev_Close k, Ev_Erase k}"
  shows "phase_ok s'"
  using assms(3,2)
  by (elim insertE emptyE; hypsubst; intro phase_cong [OF assms(1)])
    (auto simp: srv_defs Let_def split: option.splits accept_pc.splits if_splits)

lemma phase_step_control:
  assumes "phase_ok s" and "srv_step reuse e s = Some s'"
    and "e \<in> {Ev_Stop, Ev_Stop_Close, Ev_Stop_Join, Ev_Stop_Done, Ev_Start sock b l n p}"
  shows "phase_ok s'"
  using assms(3,1,2)
  by (elim insertE emptyE; hypsubst; auto simp: phase_ok_def Start_state srv_defs Let_def split: if_splits stop_pc.splits)

lemma phase_step: "phase_ok s \<Longrightarrow> srv_step reuse e s = Some s' \<Longrightarrow> phase_ok s'"
  using phase_step_threads [of s reuse e s'] phase_step_control [of s reuse e s'] by (cases e) blast+

lemma listener_fds_update [simp]:
  "listener_fds (s\<lparr>accept_thread := a\<rparr>) = listener_fds s" "listener_fds (s\<lparr>open_fds := f\<rparr>) = listener_fds s"
  "listener_fds (s\<lparr>shut_fds := f\<rparr>) = listener_fds s" "listener_fds (s\<lparr>active_connections := f\<rparr>) = listener_fds s"
  "listener_fds (s\<lparr>threads := ts\<rparr>) = listener_fds s" "listener_fds (s\<lparr>client_threads := ks\<rparr>) = listener_fds s"
  by (simp_all add: listener_fds_def)

lemma accept_fds_update [simp]:
  "accept_fds (s\<lparr>listen_fd := l\<rparr>) = accept_fds s" "accept_fds (s\<lparr>open_fds := f\<rparr>) = accept_fds s"
  "accept_fds (s\<lparr>shut_fds := f\<rparr>) = accept_fds s" "accept_fds (s\<lparr>active_connections := f\<rparr>) = accept_fds s"
  "accept_fds (s\<lparr>threads := ts\<rparr>) = accept_fds s" "accept_fds (s\<lparr>client_threads := ks\<rparr>) = accept_fds s"
  "accept_fds (s\<lparr>stop_call := p\<rparr>) = accept_fds s" "accept_fds (s\<lparr>srv_running := b\<rparr>) = accept_fds s"
  "accept_fds (s\<lparr>srv_port := q\<rparr>) = accept_fds s"
  by (simp_all add: accept_fds_def)

lemma accept_fds_simps [simp]:
  "accept_thread s = None \<Longrightarrow> accept_fds s = []" "accept_thread s = Some At_Top \<Longrightarrow> accept_fds s = []"
  "accept_thread s = Some (At_Select l) \<Longrightarrow> accept_fds s = []" "accept_thread s = Some At_End \<Longrightarrow> accept_fds s = []"
  "accept_thread s = Some (At_Insert fd) \<Longrightarrow> accept_fds s = [fd]"
  "accept_thread s = Some (At_Spawn fd) \<Longrightarrow> accept_fds s = [fd]"
  by (simp_all add: accept_fds_def)

lemma fds_cong:
  assumes "fds_ok s" and "listener_fds s' = listener_fds s" and "accept_fds s' = accept_fds s"
    and "threads s' = threads s" and "open_fds s' = open_fds s"
  shows "fds_ok s'"
  using assms by (simp add: fds_ok_def)

lemma fds_step_loop:
  assumes "fds_ok s" and "srv_step reuse e s = Some s'" and "e \<in> {Ev_Loop, Ev_Timeout, Ev_Fail}"
  shows "fds_ok s'"
  using assms(3,2)
  by (elim insertE emptyE; hypsubst; intro fds_cong [OF assms(1)])
    (auto simp: srv_defs split: option.splits accept_pc.splits if_splits)

lemma fds_step_accept:
  "fds_ok s \<Longrightarrow> accept_thread s = Some (At_Select l) \<Longrightarrow> fd \<notin> open_fds s \<Longrightarrow> fds_ok (connection_accepted fd s)"
  by (simp add: fds_ok_def connection_accepted_def accept_goes_to_def open_fd_def)

lemma fds_step_register:
  "fds_ok s \<Longrightarrow> accept_thread s = Some (At_Insert fd) \<Longrightarrow> fds_ok (register_connection fd s)"
  by (auto simp: fds_ok_def register_connection_def accept_goes_to_def close_fd_def)

lemma fds_step_spawn:
  "fds_ok s \<Longrightarrow> accept_thread s = Some (At_Spawn fd) \<Longrightarrow> fds_ok (spawn_handler fd s)"
  by (auto simp: fds_ok_def spawn_handler_def accept_goes_to_def)

lemma fds_step_close:
  assumes "phase_ok s" and "fds_ok s" and "stop_call s = Stop_Close l cs"
  shows "fds_ok (stop_close l cs s)"
proof -
  have "\<not> srv_running s" and "listen_fd s < 0" using assms(1,3) by (auto simp: phase_ok_def split: if_splits)
  then have "listener_fds s = (if l \<ge> 0 then [l] else [])" "listener_fds (stop_close l cs s) = []"
    using assms(3) by (simp_all add: listener_fds_def stop_close_def close_fd_def Let_def)
  moreover have "threads (stop_close l cs s) = threads s" "accept_fds (stop_close l cs s) = accept_fds s"
    "open_fds (stop_close l cs s) = (if l \<ge> 0 then open_fds s - {l} else open_fds s)"
    by (simp_all add: stop_close_def close_fd_def Let_def)
  ultimately show ?thesis using assms(2) by (auto simp: fds_ok_def)
qed

lemma fds_step_start:
  assumes "phase_ok s" and "fds_ok s" and "srv_step reuse (Ev_Start sock b l n p) s = Some s'"
  shows "fds_ok s'"
proof -
  have st: "stop_call s \<in> {Stop_Idle, Stop_Returned}" "sock \<notin> open_fds s"
    "s' = (snd (Start sock b l n p s))\<lparr>stop_call := Stop_Idle\<rparr>"
    using assms(3) by (auto split: if_splits)
  show ?thesis
  proof (cases "srv_running s")
    case True
    then have "s' = s" using st(3) assms(1) by (simp add: Start_state phase_ok_def)
    then show ?thesis using assms(2) by simp
  next
    case False
    then have "accept_thread s = None" "listen_fd s < 0" using assms(1) st(1) by (auto simp: phase_ok_def)
    then have "listener_fds s = []" "accept_fds s = []" using st(1) by (auto simp: listener_fds_def)
    then have old: "distinct (serving (threads s))" "open_fds s = set (serving (threads s))"
      using assms(2) by (simp_all add: fds_ok_def)
    have s': "accept_fds s' = []" "threads s' = threads s"
      "listener_fds s' = (if sock \<ge> 0 \<and> b \<and> l \<and> n then [sock] else [])"
      "open_fds s' = (if sock \<ge> 0 \<and> b \<and> l \<and> n then insert sock (open_fds s) else open_fds s)"
      using False st \<open>accept_thread s = None\<close> by (simp_all add: Start_state listener_fds_def)
    have "sock \<notin> set (serving (threads s))" using old(2) st(2) by simp
    then show ?thesis using old(1) unfolding fds_ok_def s' old(2) by (cases "sock \<ge> 0 \<and> b \<and> l \<and> n") auto
  qed
qed

lemma fds_step_control:
  assumes "phase_ok s" and "fds_ok s" and "srv_step reuse e s = Some s'"
    and "e \<in> {Ev_Stop, Ev_Stop_Close, Ev_Stop_Join, Ev_Stop_Done, Ev_Start sock b l n p}"
  shows "fds_ok s'"
  using assms(4)
proof (elim insertE emptyE)
  assume "e = Ev_Stop_Close"
  with assms(3) obtain l cs where "stop_call s = Stop_Close l cs" "s' = stop_close l cs s"
    by (auto split: stop_pc.splits)
  then show ?thesis using fds_step_close [OF assms(1,2)] by simp
next
  assume "e = Ev_Stop"
  with assms(1-3) show ?thesis
    by (auto simp: fds_ok_def listener_fds_def phase_ok_def Rpc_Server.Stop_def split: if_splits)
next
  assume "e = Ev_Stop_Join"
  with assms(1-3) show ?thesis
    by (auto simp: fds_ok_def listener_fds_def phase_ok_def stop_join_accept_def split: if_splits)
next
  assume "e = Ev_Stop_Done"
  with assms(1-3) show ?thesis by (auto simp: fds_ok_def listener_fds_def split: stop_pc.splits if_splits)
next
  assume "e = Ev_Start sock b l n p"
  then show ?thesis using fds_step_start assms(1-3) by blast
qed

lemma thread_state:
  assumes "k < length (threads s)" and "snd (threads s ! k) = pc"
  obtains fd ys zs where "threads s ! k = (fd, pc)" and "threads s = ys @ (fd, pc) # zs"
    and "\<And>y. (threads s)[k := y] = ys @ y # zs"
  using split_at [OF assms(1)] assms(2) by (metis surjective_pairing)

lemma fds_step:
  assumes "phase_ok s" and "fds_ok s" and "srv_step reuse e s = Some s'"
  shows "fds_ok s'"
proof (cases e)
  case (Ev_Close k)
  then have k: "k < length (threads s)" "snd (threads s ! k) = Serving" "s' = handler_closes k s"
    using assms(3) by (auto split: if_splits)
  from thread_state [OF k(1,2)] obtain fd ys zs where
    "threads s ! k = (fd, Serving)" "threads s = ys @ (fd, Serving) # zs" "(threads s)[k := (fd, Closed)] = ys @ (fd, Closed) # zs"
    by metis
  then show ?thesis using assms(2) k(3) by (auto simp: fds_ok_def handler_closes_def close_fd_def)
next
  case (Ev_Erase k)
  then have k: "k < length (threads s)" "snd (threads s ! k) = Closed" "s' = handler_erases k s"
    using assms(3) by (auto split: if_splits)
  from thread_state [OF k(1,2)] obtain fd ys zs where
    "threads s ! k = (fd, Closed)" "threads s = ys @ (fd, Closed) # zs" "(threads s)[k := (fd, Finished)] = ys @ (fd, Finished) # zs"
    by metis
  then show ?thesis using assms(2) k(3) by (auto simp: fds_ok_def handler_erases_def)
next
  case (Ev_Accept fd)
  then show ?thesis using assms(3) fds_step_accept [OF assms(2)] by (auto split: option.splits accept_pc.splits if_splits)
next
  case Ev_Register
  then show ?thesis using assms(3) fds_step_register [OF assms(2)] by (auto split: option.splits accept_pc.splits)
next
  case Ev_Spawn
  then show ?thesis using assms(3) fds_step_spawn [OF assms(2)] by (auto split: option.splits accept_pc.splits)
qed (use fds_step_control [OF assms] fds_step_loop [OF assms(2,3)] in blast)+

lemma srv_init_ok: "RpcServer port True = Inr s \<Longrightarrow> srv_ok s"
  by (auto simp: RpcServer_def srv_ok_def fds_ok_def threads_ok_def phase_ok_def listener_fds_def
      unfinished_def split: if_splits)

lemma unfinished_update:
  assumes "k < length (threads s)"
  shows "unfinished (s\<lparr>threads := (threads s)[k := (fd, pc)]\<rparr>) = (if pc = Finished then unfinished s - {k} else insert k (unfinished s))"
  using assms by (auto simp: unfinished_def nth_list_update)

lemma unfinished_cong: "threads s' = threads s \<Longrightarrow> unfinished s' = unfinished s"
  by (simp add: unfinished_def)

lemma spawning_simps [simp]:
  "accept_thread s = None \<Longrightarrow> spawning s = {}" "accept_thread s = Some At_Top \<Longrightarrow> spawning s = {}"
  "accept_thread s = Some (At_Select l) \<Longrightarrow> spawning s = {}" "accept_thread s = Some At_End \<Longrightarrow> spawning s = {}"
  "accept_thread s = Some (At_Insert fd) \<Longrightarrow> spawning s = {}"
  "accept_thread s = Some (At_Spawn fd) \<Longrightarrow> spawning s = {fd}"
  by (simp_all add: spawning_def)

lemma spawning_cong: "accept_thread s' = accept_thread s \<Longrightarrow> spawning s' = spawning s"
  by (simp add: spawning_def)

text \<open>A step that changes no thread of a connection and neither registers nor removes one.\<close>

lemma threads_cong:
  assumes "threads_ok s" and "threads s' = threads s" and "active_connections s' = active_connections s"
    and "spawning s \<subseteq> spawning s'" and "joining s \<subseteq> joining s'"
  shows "threads_ok s'"
  using assms unfolding threads_ok_def unfinished_cong [OF assms(2)] by auto

lemma joining_cong: "client_threads s' = client_threads s \<Longrightarrow> stop_call s' = stop_call s \<Longrightarrow> joining s' = joining s"
  by (simp add: joining_def)

lemma threads_step_accept:
  assumes "threads_ok s" and "srv_step reuse e s = Some s'" and "e \<in> {Ev_Loop, Ev_Timeout, Ev_Fail, Ev_Accept fd}"
  shows "threads_ok s'"
  using assms(3,2)
  by (elim insertE emptyE; hypsubst; intro threads_cong [OF assms(1)])
    (auto simp: srv_defs joining_def split: option.splits accept_pc.splits if_splits)

lemma threads_step_register:
  assumes "threads_ok s" and "accept_thread s = Some (At_Insert fd)"
  shows "threads_ok (register_connection fd s)"
proof (cases "srv_running s")
  case False
  then show ?thesis using assms by (intro threads_cong [OF assms(1)]) (simp_all add: srv_defs joining_def)
next
  case True
  then have "threads (register_connection fd s) = threads s" "spawning (register_connection fd s) = {fd}"
    "active_connections (register_connection fd s) = insert fd (active_connections s)"
    "joining (register_connection fd s) = joining s"
    by (simp_all add: srv_defs joining_def)
  then show ?thesis using assms unfinished_cong [of "register_connection fd s" s] by (auto simp: threads_ok_def)
qed

lemma threads_step_spawn:
  assumes "threads_ok s" and "accept_thread s = Some (At_Spawn fd)"
  shows "threads_ok (spawn_handler fd s)"
proof -
  let ?s = "spawn_handler fd s" and ?n = "length (threads s)"
  have "unfinished ?s = insert ?n (unfinished s)"
    by (auto simp: unfinished_def spawn_handler_def accept_goes_to_def nth_append less_Suc_eq)
  moreover have "fst (threads ?s ! ?n) = fd" "spawning ?s = {}" "active_connections ?s = active_connections s"
    "joining ?s = insert ?n (joining s)" "\<And>k. k \<in> unfinished s \<Longrightarrow> threads ?s ! k = threads s ! k"
    by (auto simp: srv_defs joining_def unfinished_def nth_append)
  ultimately show ?thesis using assms by (fastforce simp: threads_ok_def)
qed

lemma threads_step_handler:
  assumes "threads_ok s" and "k < length (threads s)"
  shows "snd (threads s ! k) = Serving \<Longrightarrow> threads_ok (handler_closes k s)"
    and "threads_ok (handler_erases k s)"
proof -
  assume "snd (threads s ! k) = Serving"
  then have "unfinished (handler_closes k s) = unfinished s" "active_connections (handler_closes k s) = active_connections s"
    "\<And>j. fst (threads (handler_closes k s) ! j) = fst (threads s ! j)"
    using assms(2) by (auto simp: unfinished_def handler_closes_def close_fd_def Let_def nth_list_update)
  moreover have "spawning (handler_closes k s) = spawning s" "joining (handler_closes k s) = joining s"
    by (simp_all add: handler_closes_def close_fd_def Let_def spawning_def joining_def)
  ultimately show "threads_ok (handler_closes k s)" using assms(1) by (simp add: threads_ok_def)
next
  have "unfinished (handler_erases k s) = unfinished s - {k}" "\<And>j. fst (threads (handler_erases k s) ! j) = fst (threads s ! j)"
    "active_connections (handler_erases k s) = active_connections s - {fst (threads s ! k)}"
    using assms(2) by (auto simp: unfinished_def handler_erases_def Let_def nth_list_update)
  moreover have "spawning (handler_erases k s) = spawning s" "joining (handler_erases k s) = joining s"
    by (simp_all add: handler_erases_def Let_def spawning_def joining_def)
  ultimately show "threads_ok (handler_erases k s)" using assms(1) by (auto simp: threads_ok_def)
qed

lemma threads_step_control:
  assumes "threads_ok s" and "phase_ok s" and "srv_step reuse e s = Some s'"
    and "e \<in> {Ev_Stop, Ev_Stop_Close, Ev_Stop_Join, Ev_Start sock b l n p}"
  shows "threads_ok s'"
  using assms(4,3,2)
  by (elim insertE emptyE; hypsubst; intro threads_cong [OF assms(1)])
    (auto simp: srv_defs Start_state joining_def phase_ok_def Let_def spawning_def split: stop_pc.splits if_splits)

lemma threads_step_done:
  assumes "threads_ok s" and "phase_ok s" and "srv_step reuse Ev_Stop_Done s = Some s'"
  shows "threads_ok s'"
proof -
  obtain ks where ks: "stop_call s = Stop_Join_Clients ks" "\<forall>k \<in> set ks. snd (threads s ! k) = Finished"
    "s' = s\<lparr>stop_call := Stop_Returned\<rparr>"
    using assms(3) by (auto split: stop_pc.splits if_splits)
  then have a: "accept_thread s = None" "client_threads s = []" using assms(2) by (auto simp: phase_ok_def)
  then have "joining s = set ks" using ks(1) by (simp add: joining_def)
  then have none: "unfinished s = {}" using assms(1) ks(2) by (auto simp: threads_ok_def unfinished_def)
  then have "active_connections s = {}" using assms(1) a by (simp add: threads_ok_def)
  then show ?thesis using none unfinished_cong [of s' s] ks(3) by (simp add: threads_ok_def)
qed

lemma srv_step_ok:
  assumes "srv_ok s" and "srv_step reuse e s = Some s'"
  shows "srv_ok s'"
proof -
  have inv: "fds_ok s" "threads_ok s" "phase_ok s" using assms(1) by (simp_all add: srv_ok_def)
  have "threads_ok s'"
  proof (cases e)
    case Ev_Register
    then show ?thesis using assms(2) threads_step_register [OF inv(2)] by (auto split: option.splits accept_pc.splits)
  next
    case Ev_Spawn
    then show ?thesis using assms(2) threads_step_spawn [OF inv(2)] by (auto split: option.splits accept_pc.splits)
  next
    case (Ev_Close k)
    then show ?thesis using assms(2) threads_step_handler(1) [OF inv(2), of k] by (auto split: if_splits)
  next
    case (Ev_Erase k)
    then show ?thesis using assms(2) threads_step_handler(2) [OF inv(2), of k] by (auto split: if_splits)
  next
    case Ev_Stop_Done
    then show ?thesis using threads_step_done [OF inv(2,3)] assms(2) by blast
  qed (use threads_step_control [OF inv(2,3) assms(2)] threads_step_accept [OF inv(2) assms(2)] in blast)+
  then show ?thesis using phase_step [OF inv(3) assms(2)] fds_step [OF inv(3,1) assms(2)] by (simp add: srv_ok_def)
qed

lemma srv_reach_ok: "srv_reach reuse s \<Longrightarrow> srv_ok s"
  by (induction rule: srv_reach.induct) (auto intro: srv_init_ok srv_step_ok)

lemma srv_run_reach: "srv_reach reuse s \<Longrightarrow> srv_run reuse es s = Some s' \<Longrightarrow> srv_reach reuse s'"
  by (induction es arbitrary: s) (auto intro: srv_reach.step split: option.splits)

section \<open>Stopping\<close>

lemma new_server_reach: "srv_reach reuse new_server"
  by (rule srv_reach.init [of 0]) (simp add: RpcServer_def new_server_def)

lemma srv_run_outcome:
  assumes "case srv_run reuse es new_server of None \<Rightarrow> False | Some s \<Rightarrow> P s"
  shows "\<exists>s. srv_reach reuse s \<and> P s"
proof (cases "srv_run reuse es new_server")
  case (Some s)
  then show ?thesis using assms srv_run_reach [OF new_server_reach Some] by auto
qed (use assms in simp)

text \<open>
  C33. When \<open>Stop\<close> has returned, the server is at rest, however its threads were interleaved:
  the accept thread and every connection thread have ended, no descriptor of the server is
  open and no connection is registered.
\<close>

theorem stop_leaves_nothing:
  assumes "srv_reach reuse s" and "stop_call s = Stop_Returned"
  shows "\<not> srv_running s \<and> accept_thread s = None \<and> listen_fd s < 0 \<and> client_threads s = [] \<and>
    open_fds s = {} \<and> active_connections s = {} \<and> (\<forall>t \<in> set (threads s). snd t = Finished)"
proof -
  have inv: "fds_ok s" "threads_ok s" "phase_ok s" using srv_reach_ok [OF assms(1)] by (simp_all add: srv_ok_def)
  have ph: "\<not> srv_running s" "accept_thread s = None" "listen_fd s < 0" "client_threads s = []"
    using inv(3) assms(2) by (auto simp: phase_ok_def split: if_splits)
  then have "joining s = {}" using assms(2) by (simp add: joining_def)
  then have "unfinished s = {}" using inv(2) by (simp add: threads_ok_def)
  then have fin: "\<forall>t \<in> set (threads s). snd t = Finished" "active_connections s = {}"
    using inv(2) ph(2) by (fastforce simp: unfinished_def in_set_conv_nth, simp add: threads_ok_def)
  then have "serving (threads s) = []" by (simp add: serving_def filter_empty_conv)
  then have "open_fds s = {}" using inv(1) ph assms(2) by (simp add: fds_ok_def listener_fds_def)
  then show ?thesis using ph fin by blast
qed

theorem stop_leaves_nothing_witness:
  "\<exists>s. srv_reach True s \<and> length (threads s) = 1 \<and> open_fds s = {} \<and> active_connections s = {}"
proof -
  have "\<exists>s. srv_reach True s \<and> (stop_call s = Stop_Returned \<and> length (threads s) = 1)"
    by (rule srv_run_outcome [where es = short_life]) code_simp
  then obtain s where "srv_reach True s" "stop_call s = Stop_Returned" "length (threads s) = 1" by blast
  with stop_leaves_nothing [OF this(1,2)] show ?thesis by blast
qed

text \<open>
  C37. \<open>HandleConnection\<close> closes its descriptor before it removes the number from
  \<open>active_connections_\<close>, so the number of a new connection can be removed by the thread of an
  old one. Then \<open>Stop\<close> waits for a connection thread whose connection it has not shut down, and
  returns only when the client chooses to send or to hang up.
\<close>

theorem stop_misses_connection:
  "\<exists>s. srv_reach True s \<and> stop_call s = Stop_Join_Clients [0, 1] \<and> threads s = [(4, Finished), (4, Serving)] \<and>
     4 \<in> open_fds s \<and> 4 \<notin> shut_fds s"
  by (rule srv_run_outcome [where es = number_reused]) code_simp

section \<open>Without early reuse of numbers\<close>

lemma held_open:
  assumes "fds_ok s"
  shows "set (serving (threads s)) \<union> spawning s \<subseteq> open_fds s"
  using assms by (auto simp: fds_ok_def spawning_def accept_fds_def split: option.splits accept_pc.splits)

lemma numbers_cong:
  assumes "numbers_ok s" and "threads s' = threads s" and "active_connections s' = active_connections s"
    and "stop_call s' = stop_call s" and "shut_fds s' = shut_fds s" and "spawning s' \<subseteq> spawning s"
    and "\<And>fd. fd \<in> open_fds s' \<Longrightarrow> fd \<in> open_fds s \<or> (fd, Closed) \<notin> set (threads s)"
  shows "numbers_ok s'"
proof -
  have "fd \<notin> open_fds s'" if "(fd, Closed) \<in> set (threads s)" for fd
    using that assms(1,7) by (auto simp: numbers_ok_def)
  moreover have "set (serving (threads s)) \<union> spawning s' \<subseteq> X" if "set (serving (threads s)) \<union> spawning s \<subseteq> X" for X
    using that assms(6) by blast
  ultimately show ?thesis
    using assms(1) unfolding numbers_ok_def assms(2-5) by (cases "stop_call s") (simp_all del: Un_subset_iff)
qed

lemma numbers_step_accept:
  assumes "numbers_ok s" and "srv_step False e s = Some s'" and "e \<in> {Ev_Loop, Ev_Timeout, Ev_Fail, Ev_Accept fd}"
  shows "numbers_ok s'"
  using assms(3,2)
  by (elim insertE emptyE; hypsubst; intro numbers_cong [OF assms(1)])
    (auto simp: srv_defs split: option.splits accept_pc.splits if_splits)

lemma numbers_step_register:
  assumes "numbers_ok s" and "fds_ok s" and "phase_ok s" and "accept_thread s = Some (At_Insert fd)"
  shows "numbers_ok (register_connection fd s)"
proof (cases "srv_running s")
  case True
  then have "stop_call s = Stop_Idle" using assms(3) by (simp add: phase_ok_def)
  then show ?thesis using assms(1,4) True by (auto simp: numbers_ok_def srv_defs)
next
  case False
  have "fd \<notin> set (serving (threads s))" using assms(2,4) by (simp add: fds_ok_def)
  then show ?thesis using assms(1,4) False by (auto simp: numbers_ok_def srv_defs split: stop_pc.splits)
qed

lemma numbers_step_spawn:
  assumes "numbers_ok s" and "accept_thread s = Some (At_Spawn fd)"
  shows "numbers_ok (spawn_handler fd s)"
  using assms by (auto simp: numbers_ok_def srv_defs split: stop_pc.splits)

lemma numbers_step_closes:
  assumes "numbers_ok s" and "fds_ok s" and "k < length (threads s)" and "snd (threads s ! k) = Serving"
  shows "numbers_ok (handler_closes k s)"
proof -
  from thread_state [OF assms(3,4)] obtain fd ys zs where t: "threads s ! k = (fd, Serving)"
    "threads s = ys @ (fd, Serving) # zs" "(threads s)[k := (fd, Closed)] = ys @ (fd, Closed) # zs" by metis
  have "spawning (handler_closes k s) = spawning s" by (simp add: spawning_def handler_closes_def close_fd_def Let_def)
  moreover have "fd \<notin> set (serving (ys @ zs))" "fd \<notin> spawning s"
    using assms(2) t(2) by (auto simp: fds_ok_def spawning_def split: option.splits accept_pc.splits)
  ultimately show ?thesis
    using assms(1) t by (auto simp: numbers_ok_def handler_closes_def close_fd_def split: stop_pc.splits)
qed

lemma numbers_step_erases:
  assumes "numbers_ok s" and "fds_ok s" and "k < length (threads s)" and "snd (threads s ! k) = Closed"
  shows "numbers_ok (handler_erases k s)"
proof -
  from thread_state [OF assms(3,4)] obtain fd ys zs where t: "threads s ! k = (fd, Closed)"
    "threads s = ys @ (fd, Closed) # zs" "(threads s)[k := (fd, Finished)] = ys @ (fd, Finished) # zs" by metis
  have "fd \<notin> open_fds s" using assms(1) t(2) by (simp add: numbers_ok_def)
  then have "fd \<notin> set (serving (threads s)) \<union> spawning s" using held_open [OF assms(2)] by blast
  moreover have "spawning (handler_erases k s) = spawning s" by (simp add: spawning_def handler_erases_def Let_def)
  ultimately show ?thesis
    using assms(1) t by (auto simp: numbers_ok_def handler_erases_def split: stop_pc.splits)
qed

lemma numbers_step_stop_close:
  assumes "numbers_ok s" and "fds_ok s" and "stop_call s = Stop_Close l cs"
  shows "numbers_ok (stop_close l cs s)"
proof -
  let ?held = "set (serving (threads s)) \<union> spawning s" and ?s = "stop_close l cs s"
  have s': "threads ?s = threads s" "spawning ?s = spawning s" "active_connections ?s = active_connections s"
    "stop_call ?s = Stop_Join_Accept" "open_fds ?s = (if l \<ge> 0 then open_fds s - {l} else open_fds s)"
    "cs \<inter> open_fds ?s \<subseteq> shut_fds ?s"
    by (auto simp: stop_close_def close_fd_def Let_def spawning_def)
  have "l \<notin> ?held" if "l \<ge> 0"
    using assms(2,3) that by (auto simp: fds_ok_def listener_fds_def spawning_def split: option.splits accept_pc.splits if_splits)
  then have "?held \<subseteq> open_fds ?s" using held_open [OF assms(2)] s'(5) by auto
  moreover have "?held \<subseteq> cs" using assms(1,3) by (simp add: numbers_ok_def)
  ultimately have "?held \<subseteq> shut_fds ?s" using s'(6) by blast
  then show ?thesis using assms(1) s' by (auto simp: numbers_ok_def)
qed

lemma numbers_step_start:
  assumes "numbers_ok s" and "srv_ok s" and "srv_step False (Ev_Start sock b l n p) s = Some s'"
  shows "numbers_ok s'"
proof -
  have st: "stop_call s \<in> {Stop_Idle, Stop_Returned}" "s' = (snd (Start sock b l n p s))\<lparr>stop_call := Stop_Idle\<rparr>"
    using assms(3) by (auto split: if_splits)
  show ?thesis
  proof (cases "srv_running s")
    case True
    then have "s' = s" using st(2) assms(2) by (simp add: Start_state phase_ok_def srv_ok_def)
    then show ?thesis using assms(1) by simp
  next
    case False
    then have "accept_thread s = None" "joining s = {}"
      using assms(2) st(1) by (auto simp: srv_ok_def phase_ok_def joining_def)
    then have "unfinished s = {}" using assms(2) by (simp add: srv_ok_def threads_ok_def)
    then have "\<forall>fd. (fd, Closed) \<notin> set (threads s)" by (fastforce simp: unfinished_def in_set_conv_nth)
    then show ?thesis
      using assms(1) False st(2) \<open>accept_thread s = None\<close> by (auto simp: numbers_ok_def Start_state)
  qed
qed

lemma numbers_step:
  assumes "srv_ok s" and "numbers_ok s" and "srv_step False e s = Some s'"
  shows "numbers_ok s'"
proof -
  have inv: "fds_ok s" "phase_ok s" using assms(1) by (simp_all add: srv_ok_def)
  show ?thesis
  proof (cases e)
    case Ev_Register
    then show ?thesis using assms(3) numbers_step_register [OF assms(2) inv] by (auto split: option.splits accept_pc.splits)
  next
    case Ev_Spawn
    then show ?thesis using assms(3) numbers_step_spawn [OF assms(2)] by (auto split: option.splits accept_pc.splits)
  next
    case (Ev_Close k)
    then show ?thesis using assms(3) numbers_step_closes [OF assms(2) inv(1), of k] by (auto split: if_splits)
  next
    case (Ev_Erase k)
    then show ?thesis using assms(3) numbers_step_erases [OF assms(2) inv(1), of k] by (auto split: if_splits)
  next
    case Ev_Stop_Close
    then show ?thesis using assms(3) numbers_step_stop_close [OF assms(2) inv(1)] by (auto split: stop_pc.splits)
  next
    case (Ev_Start sock b l n p)
    then show ?thesis using numbers_step_start [OF assms(2,1)] assms(3) by blast
  next
    case Ev_Stop
    then show ?thesis using assms(2,3) inv(2)
      by (auto simp: numbers_ok_def Rpc_Server.Stop_def spawning_def split: if_splits)
  next
    case Ev_Stop_Join
    then show ?thesis using assms(2,3)
      by (auto simp: numbers_ok_def stop_join_accept_def split: if_splits)
  next
    case Ev_Stop_Done
    then show ?thesis using assms(2,3)
      by (auto simp: numbers_ok_def spawning_def split: if_splits stop_pc.splits)
  qed (use numbers_step_accept [OF assms(2,3)] in blast)+
qed

lemma numbers_reach: "srv_reach False s \<Longrightarrow> numbers_ok s"
proof (induction rule: srv_reach.induct)
  case (init port s)
  then show ?case by (auto simp: RpcServer_def numbers_ok_def split: if_splits)
next
  case (step s e s')
  then show ?case using numbers_step [OF srv_reach_ok] by blast
qed

text \<open>
  C34. As long as the kernel does not reuse the number of a descriptor in that window, \<open>Stop\<close>
  waits only for threads whose connections it has shut down, so it does not wait for a client.
\<close>

theorem stop_shuts_down_all:
  assumes "srv_reach False s" and "stop_call s = Stop_Join_Clients ks" and "(fd, Serving) \<in> set (threads s)"
  shows "fd \<in> shut_fds s"
proof -
  have "fd \<in> set (serving (threads s))" using assms(3) by (force simp: serving_def)
  then show ?thesis using numbers_reach [OF assms(1)] assms(2) by (auto simp: numbers_ok_def)
qed

theorem stop_shuts_down_all_witness:
  "\<exists>s. srv_reach False s \<and> stop_call s = Stop_Join_Clients [0] \<and> 4 \<in> shut_fds s"
proof -
  have "\<exists>s. srv_reach False s \<and> (stop_call s = Stop_Join_Clients [0] \<and> threads s = [(4, Serving)])"
    by (rule srv_run_outcome [where es = "[Ev_Start 3 True True True 80, Ev_Loop, Ev_Accept 4, Ev_Register, Ev_Spawn,
      Ev_Stop, Ev_Stop_Close, Ev_Loop, Ev_Stop_Join]"]) code_simp
  then obtain s where "srv_reach False s" "stop_call s = Stop_Join_Clients [0]" "threads s = [(4, Serving)]" by blast
  with stop_shuts_down_all [OF this(1,2), of 4] show ?thesis by auto
qed

end
