(* ===== verification/Log_Entry.thy ===== *)
theory Log_Entry
  imports Bytes
begin

text \<open>
  Log entries, the arguments of AppendEntries and replicated commands, with their wire
  formats (\<open>src/src/raft/log_entry.h\<close>, \<open>src/src/raft/raft_command.h\<close>). A 64-bit integer is
  written as its high and its low half, each in network order. Memory for the vectors that
  the parser reserves is taken to be available.
\<close>

section \<open>Log entries\<close>

record LogEntry =
  entry_term :: int
  entry_index :: int
  command :: bytes

record AppendEntriesArgs =
  prev_log_index :: int
  prev_log_term :: int
  leader_commit :: int
  entries :: "LogEntry list"

definition write_entry :: "LogEntry \<Rightarrow> bytes list" where
  "write_entry e = [be_bytes 4 (to_u32 (entry_term e)), be_u64 (entry_index e),
     be_bytes 4 (to_u32 (int (length (command e)))), command e]"

definition SerializeAppendEntriesPayload :: "AppendEntriesArgs \<Rightarrow> bytes" where
  "SerializeAppendEntriesPayload a =
     (let size = 4 * 4 + 4 + 4 * 2 + sum_list (map (\<lambda>e. 4 * 4 + length (command e)) (entries a));
          writes = [be_u64 (prev_log_index a), be_bytes 4 (to_u32 (prev_log_term a)),
                    be_u64 (leader_commit a), be_bytes 4 (to_u32 (int (length (entries a))))]
                   @ concat (map write_entry (entries a))
      in fst (fold put_bytes writes (replicate size 0, 0)))"

definition read_u32 :: "bytes \<Rightarrow> nat \<Rightarrow> int" where
  "read_u32 bs off = be_uint (read_at bs off 4)"

definition read_u64 :: "bytes \<Rightarrow> nat \<Rightarrow> int" where
  "read_u64 bs off = u64_of_halves (read_u32 bs off) (read_u32 bs (off + 4))"

text \<open>The loop over the entries; the first argument counts those still to be read.\<close>

fun read_entries :: "nat \<Rightarrow> bytes \<Rightarrow> nat \<Rightarrow> LogEntry list option" where
  "read_entries 0 bs off = Some []"
| "read_entries (Suc n) bs off =
     (if off + 16 > length bs then None
      else
        let cmd_len = nat (read_u32 bs (off + 12)) in
        if off + 16 + cmd_len > length bs then None
        else (case read_entries n bs (off + 16 + cmd_len) of
            None \<Rightarrow> None
          | Some es \<Rightarrow> Some (\<lparr>entry_term = to_i32 (read_u32 bs off), entry_index = to_i64 (read_u64 bs (off + 4)),
                               command = read_at bs (off + 16) cmd_len\<rparr> # es)))"

definition DeserializeAppendEntriesPayload :: "bytes \<Rightarrow> AppendEntriesArgs option" where
  "DeserializeAppendEntriesPayload bs =
     (if length bs < 4 * 6 then None
      else (case read_entries (nat (read_u32 bs 20)) bs 24 of
          None \<Rightarrow> None
        | Some es \<Rightarrow> Some \<lparr>prev_log_index = to_i64 (read_u64 bs 0), prev_log_term = to_i32 (read_u32 bs 8),
                            leader_commit = to_i64 (read_u64 bs 12), entries = es\<rparr>))"

definition entry_ok :: "LogEntry \<Rightarrow> bool" where
  "entry_ok e \<longleftrightarrow> in_i32 (entry_term e) \<and> in_i64 (entry_index e) \<and> length (command e) < 2 ^ 32"

definition args_ok :: "AppendEntriesArgs \<Rightarrow> bool" where
  "args_ok a \<longleftrightarrow> in_i64 (prev_log_index a) \<and> in_i32 (prev_log_term a) \<and> in_i64 (leader_commit a) \<and>
     length (entries a) < 2 ^ 32 \<and> list_all entry_ok (entries a)"

section \<open>Commands\<close>

text \<open>
  The type byte of a command is not checked when it is parsed: a byte outside the enumeration
  gives a command that matches no case (\<open>CMD_OTHER\<close>).
\<close>

datatype CommandType = CMD_INSERT | CMD_UPDATE_VALUE | CMD_DELETE | CMD_OTHER int

record RaftCommand =
  cmd_type :: CommandType
  cmd_id :: int
  cmd_name :: bytes
  cmd_value :: int

primrec cmd_type_code :: "CommandType \<Rightarrow> int" where
  "cmd_type_code CMD_INSERT = 0"
| "cmd_type_code CMD_UPDATE_VALUE = 1"
| "cmd_type_code CMD_DELETE = 2"
| "cmd_type_code (CMD_OTHER c) = c"

definition cmd_type_of :: "int \<Rightarrow> CommandType" where
  "cmd_type_of c = (if c = 0 then CMD_INSERT else if c = 1 then CMD_UPDATE_VALUE
     else if c = 2 then CMD_DELETE else CMD_OTHER c)"

definition Serialize :: "RaftCommand \<Rightarrow> bytes" where
  "Serialize c = fst (fold put_bytes
     [le_bytes 1 (cmd_type_code (cmd_type c)), be_u64 (cmd_id c), be_u64 (cmd_value c),
      be_bytes 4 (to_u32 (int (length (cmd_name c)))), cmd_name c]
     (replicate (1 + 4 * 5 + length (cmd_name c)) 0, 0))"

definition Deserialize :: "bytes \<Rightarrow> RaftCommand" where
  "Deserialize bs =
     (if length bs < 1 + 4 * 5
      then \<lparr>cmd_type = CMD_INSERT, cmd_id = 0, cmd_name = [], cmd_value = 0\<rparr>
      else
        let name_size = nat (read_u32 bs 17) in
        \<lparr>cmd_type = cmd_type_of (le_uint (read_at bs 0 1)), cmd_id = to_i64 (read_u64 bs 1),
         cmd_name = (if 21 + name_size \<le> length bs then read_at bs 21 name_size else []),
         cmd_value = to_i64 (read_u64 bs 9)\<rparr>)"

definition command_ok :: "RaftCommand \<Rightarrow> bool" where
  "command_ok c \<longleftrightarrow> cmd_type c \<in> {CMD_INSERT, CMD_UPDATE_VALUE, CMD_DELETE} \<and> in_i64 (cmd_id c) \<and>
     in_i64 (cmd_value c) \<and> length (cmd_name c) < 2 ^ 32"

section \<open>Reading integers\<close>

lemma read_u32_front: "read_u32 (be_bytes 4 x @ rest) 0 = to_u32 x"
  by (simp add: read_u32_def read_at_front)

lemma read_u32_skip: "length pre \<le> off \<Longrightarrow> read_u32 (pre @ bs) off = read_u32 bs (off - length pre)"
  by (simp add: read_u32_def read_at_skip)

lemma read_u64_skip: "length pre \<le> off \<Longrightarrow> read_u64 (pre @ bs) off = read_u64 bs (off - length pre)"
  by (simp add: read_u64_def read_u32_skip Nat.add_diff_assoc2)

lemma read_u64_front: "read_u64 (be_u64 x @ rest) 0 = to_u64 x"
proof -
  have "read_at (be_u64 x @ rest) 0 4 = take 4 (be_u64 x)" "read_at (be_u64 x @ rest) 4 4 = drop 4 (be_u64 x)"
    by (simp_all add: read_at_def)
  then show ?thesis using u64_of_halves_be_u64 by (simp add: read_u64_def read_u32_def)
qed

lemma to_u32_length: "n < 2 ^ 32 \<Longrightarrow> to_u32 (int n) = int n"
  by (intro to_u32_id) (simp add: in_u32_def)

lemmas read_ints = read_u32_front read_u32_skip read_u64_front read_u64_skip

section \<open>Round trips\<close>

definition entry_bytes :: "LogEntry \<Rightarrow> bytes" where
  "entry_bytes e = concat (write_entry e)"

lemma length_entry_bytes: "length (entry_bytes e) = 16 + length (command e)"
  by (simp add: entry_bytes_def write_entry_def)

lemma SerializeAppendEntriesPayload_layout:
  "\<exists>k. SerializeAppendEntriesPayload a = (be_u64 (prev_log_index a) @ be_bytes 4 (to_u32 (prev_log_term a)) @
     be_u64 (leader_commit a) @ be_bytes 4 (to_u32 (int (length (entries a))))) @
     concat (map entry_bytes (entries a)) @ replicate k 0"
proof -
  have "concat (concat (map write_entry es)) = concat (map entry_bytes es)" for es
    by (induction es) (simp_all add: entry_bytes_def)
  then show ?thesis
    by (simp add: SerializeAppendEntriesPayload_def Let_def fold_put_bytes_from_start del: replicate.simps)
qed

lemma read_entries_bytes:
  assumes "list_all entry_ok es" and "length pre = off"
  shows "read_entries (length es) (pre @ concat (map entry_bytes es) @ post) off = Some es"
  using assms
proof (induction es arbitrary: pre off)
  case (Cons e es)
  let ?bs = "pre @ entry_bytes e @ concat (map entry_bytes es) @ post"
  have ok: "entry_ok e" using Cons.prems by simp
  have len: "to_u32 (int (length (command e))) = int (length (command e))"
    using ok by (intro to_u32_length) (simp add: entry_ok_def)
  have reads: "read_u32 ?bs off = to_u32 (entry_term e)" "read_u64 ?bs (off + 4) = to_u64 (entry_index e)"
    "read_u32 ?bs (off + 12) = int (length (command e))" "read_at ?bs (off + 16) (length (command e)) = command e"
    using Cons.prems(2) len
    by (simp_all add: entry_bytes_def write_entry_def read_ints read_at_skip read_at_front)
  have "read_entries (length es) ((pre @ entry_bytes e) @ concat (map entry_bytes es) @ post)
      (off + 16 + length (command e)) = Some es"
    using Cons.prems by (intro Cons.IH) (simp_all add: length_entry_bytes)
  then show ?case
    using reads ok Cons.prems(2) by (simp add: Let_def length_entry_bytes entry_ok_def)
qed simp

lemma append_entries_reads:
  assumes "in_i64 (prev_log_index a)" and "in_i32 (prev_log_term a)" and "length (entries a) < 2 ^ 32"
    and "list_all entry_ok (entries a)"
  shows "DeserializeAppendEntriesPayload (SerializeAppendEntriesPayload a) =
    Some (a\<lparr>leader_commit := to_i64 (leader_commit a)\<rparr>)"
proof -
  let ?hd = "be_u64 (prev_log_index a) @ be_bytes 4 (to_u32 (prev_log_term a)) @
     be_u64 (leader_commit a) @ be_bytes 4 (to_u32 (int (length (entries a))))"
  obtain k where s: "SerializeAppendEntriesPayload a = ?hd @ concat (map entry_bytes (entries a)) @ replicate k 0"
    using SerializeAppendEntriesPayload_layout by blast
  let ?bs = "?hd @ concat (map entry_bytes (entries a)) @ replicate k 0"
  have len: "to_u32 (int (length (entries a))) = int (length (entries a))"
    using assms(3) by (rule to_u32_length)
  have "read_u64 ?bs 0 = to_u64 (prev_log_index a)" "read_u32 ?bs 8 = to_u32 (prev_log_term a)"
    "read_u64 ?bs 12 = to_u64 (leader_commit a)" "read_u32 ?bs 20 = int (length (entries a))"
    using len by (simp_all add: read_ints)
  moreover have "read_entries (length (entries a)) ?bs 24 = Some (entries a)"
    using assms(4) by (intro read_entries_bytes) simp_all
  ultimately show ?thesis
    using assms unfolding s by (simp add: DeserializeAppendEntriesPayload_def)
qed

text \<open>
  C20. Round trip of AppendEntries: the arguments, with any number of entries and any
  command bytes, are parsed back from their serialization.
\<close>

theorem append_entries_round_trip:
  assumes "args_ok a"
  shows "DeserializeAppendEntriesPayload (SerializeAppendEntriesPayload a) = Some a"
  using append_entries_reads [of a] assms by (simp add: args_ok_def)

theorem append_entries_round_trip_witness:
  "DeserializeAppendEntriesPayload (SerializeAppendEntriesPayload \<lparr>prev_log_index = 3, prev_log_term = 2,
     leader_commit = 1, entries = [\<lparr>entry_term = 2, entry_index = 4, command = [7, 0, 9]\<rparr>]\<rparr>) =
   Some \<lparr>prev_log_index = 3, prev_log_term = 2, leader_commit = 1,
     entries = [\<lparr>entry_term = 2, entry_index = 4, command = [7, 0, 9]\<rparr>]\<rparr>"
  by (rule append_entries_round_trip) (simp add: args_ok_def entry_ok_def in_i64_def in_i32_def)

lemma cmd_type_of_code:
  "ty \<in> {CMD_INSERT, CMD_UPDATE_VALUE, CMD_DELETE} \<Longrightarrow> cmd_type_of (cmd_type_code ty) = ty"
  by (auto simp: cmd_type_of_def)

lemma command_reads:
  assumes "command_ok c"
  shows "Deserialize (Serialize c) = c"
proof -
  let ?bs = "le_bytes 1 (cmd_type_code (cmd_type c)) @ be_u64 (cmd_id c) @ be_u64 (cmd_value c) @
      be_bytes 4 (to_u32 (int (length (cmd_name c)))) @ cmd_name c"
  have len: "to_u32 (int (length (cmd_name c))) = int (length (cmd_name c))"
    using assms by (intro to_u32_length) (simp add: command_ok_def)
  have s: "Serialize c = ?bs"
    unfolding Serialize_def fold_put_bytes_from_start by (simp del: le_bytes.simps)
  have "le_uint (read_at ?bs 0 1) = cmd_type_code (cmd_type c) mod 256" "read_u64 ?bs 1 = to_u64 (cmd_id c)"
    "read_u64 ?bs 9 = to_u64 (cmd_value c)" "read_u32 ?bs 17 = int (length (cmd_name c))"
    "read_at ?bs 21 (length (cmd_name c)) = cmd_name c"
    using len by (simp_all add: read_ints read_at_skip read_at_front read_at_all le_uint_byte del: le_bytes.simps)
  moreover have "cmd_type_code (cmd_type c) mod 256 = cmd_type_code (cmd_type c)"
    using assms by (auto simp: command_ok_def)
  ultimately show ?thesis
    using assms cmd_type_of_code [of "cmd_type c"] unfolding s Deserialize_def Let_def
    by (simp add: command_ok_def del: le_bytes.simps)
qed

text \<open>
  C21. Round trip of a replicated command: what a server submits is what the state machines
  apply.
\<close>

theorem command_round_trip:
  assumes "command_ok c"
  shows "Deserialize (Serialize c) = c"
  by (rule command_reads [OF assms])

theorem command_round_trip_witness:
  "Deserialize (Serialize \<lparr>cmd_type = CMD_UPDATE_VALUE, cmd_id = -4, cmd_name = [], cmd_value = 9\<rparr>) =
     \<lparr>cmd_type = CMD_UPDATE_VALUE, cmd_id = -4, cmd_name = [], cmd_value = 9\<rparr>"
  by (rule command_round_trip) (simp add: command_ok_def in_i64_def)

end
