(* ===== verification/Raft_Node.thy ===== *)
theory Raft_Node
  imports Log_Entry Rpc_Message
begin

text \<open>
  A Raft node (\<open>src/src/raft/raft_node.{h,cpp}\<close>).

  The state is the member variables; \<open>'a\<close> is the state that the commit callback works on. Each
  handler runs under the node's mutex and is one computation. A handler that sends messages
  returns them as calls: the peer, the request, and what the sending thread keeps to interpret
  the reply. The clock and the random timeout are arguments (\<open>now\<close> in milliseconds, \<open>timeout\<close>
  between 150 and 300). A map of type \<open>unordered_map\<close> that is read through \<open>operator[]\<close> is a
  total function with default 0. An index outside the log, and a term that overflows, is
  \<open>Undefined\<close>.
\<close>

section \<open>State\<close>

datatype RaftState = FOLLOWER | CANDIDATE | LEADER

record 'a raft_node =
  node_id :: int
  peers :: "(int \<times> string) list"
  listen_port :: int
  current_term :: int
  voted_for :: int
  raft_state :: RaftState
  leader_id :: int
  votes_received :: "int set"
  election_deadline :: int
  next_heartbeat :: int
  log_entries :: "LogEntry list"
  commit_index :: int
  last_applied :: int
  next_index :: "int \<Rightarrow> int"
  match_index :: "int \<Rightarrow> int"
  on_commit :: "(bytes \<Rightarrow> int \<Rightarrow> ('a, unit) comp) option"
  running :: bool
  app :: 'a

definition kHeartbeatInterval :: int where
  "kHeartbeatInterval = 75"

definition cluster_size :: "'a raft_node \<Rightarrow> nat" where
  "cluster_size n = length (peers n) + 1"

definition RaftNode :: "int \<Rightarrow> (int \<times> string) list \<Rightarrow> int \<Rightarrow> 'a \<Rightarrow> 'a raft_node" where
  "RaftNode i ps port a =
     \<lparr>node_id = i, peers = ps, listen_port = port, current_term = 0, voted_for = -1, raft_state = FOLLOWER,
      leader_id = -1, votes_received = {}, election_deadline = 0, next_heartbeat = 0,
      log_entries = [\<lparr>entry_term = 0, entry_index = 0, command = []\<rparr>], commit_index = 0, last_applied = 0,
      next_index = (\<lambda>_. 0), match_index = (\<lambda>_. 0), on_commit = None, running = False, app = a\<rparr>"

text \<open>What a thread sends to a peer, with what it remembers for the reply.\<close>

datatype rpc_call =
    Vote_Call (callee: int) (address: string) (request: RpcMessage) (election_term: int)
  | Append_Call (callee: int) (address: string) (request: RpcMessage) (last_new_index: int)

definition log_at :: "int \<Rightarrow> ('a raft_node, LogEntry) comp" where
  "log_at i = bindM (getM log_entries) (\<lambda>l.
     if 0 \<le> i \<and> i < int (length l) then returnM (l ! nat i) else throwM Undefined)"

definition yes_payload :: bytes where "yes_payload = [49]"
definition no_payload :: bytes where "no_payload = [48]"

section \<open>Small operations\<close>

definition GetState :: "('a raft_node, RaftState) comp" where
  "GetState = getM raft_state"

definition GetCurrentTerm :: "('a raft_node, int) comp" where
  "GetCurrentTerm = getM current_term"

definition GetLog :: "('a raft_node, LogEntry list) comp" where
  "GetLog = getM log_entries"

definition GetCommitIndex :: "('a raft_node, int) comp" where
  "GetCommitIndex = getM commit_index"

definition Propose :: "bytes \<Rightarrow> ('a raft_node, bool) comp" where
  "Propose cmd =
     bindM (getM raft_state) (\<lambda>st.
     if st \<noteq> LEADER then returnM False
     else thenM (modifyM (\<lambda>n. n\<lparr>log_entries := log_entries n @
            [\<lparr>entry_term = current_term n, entry_index = int (length (log_entries n)), command = cmd\<rparr>]\<rparr>))
          (returnM True))"

definition SetOnCommitCallback :: "(bytes \<Rightarrow> int \<Rightarrow> ('a, unit) comp) option \<Rightarrow> ('a raft_node, unit) comp" where
  "SetOnCommitCallback cb = modifyM (\<lambda>n. n\<lparr>on_commit := cb\<rparr>)"

definition ResetElectionDeadlineLocked :: "int \<Rightarrow> int \<Rightarrow> ('a raft_node, unit) comp" where
  "ResetElectionDeadlineLocked now timeout = modifyM (\<lambda>n. n\<lparr>election_deadline := now + timeout\<rparr>)"

text \<open>\<open>Start\<close>: \<open>server\<close> is the outcome of creating and starting the RPC server.\<close>

definition Start :: "unit res \<Rightarrow> int \<Rightarrow> int \<Rightarrow> ('a raft_node, unit) comp" where
  "Start server now timeout =
     bindM (getM running) (\<lambda>r.
     if r then returnM ()
     else
       thenM (liftM server) (
       thenM (modifyM (\<lambda>n. n\<lparr>running := True, raft_state := FOLLOWER, leader_id := -1\<rparr>)) (
       ResetElectionDeadlineLocked now timeout)))"

definition Stop :: "('a raft_node, unit) comp" where
  "Stop = modifyM (\<lambda>n. n\<lparr>running := False\<rparr>)"

section \<open>Applying committed entries\<close>

definition run_callback :: "bytes \<Rightarrow> int \<Rightarrow> ('a raft_node, unit) comp" where
  "run_callback cmd i n = (case on_commit n of
     None \<Rightarrow> (Inr (), n)
   | Some cb \<Rightarrow> (case cb cmd i (app n) of (r, a) \<Rightarrow> (r, n\<lparr>app := a\<rparr>)))"

text \<open>
  The loop of \<open>ApplyCommittedEntriesLocked\<close>; the callback does not change the indices, so it
  runs \<open>commit_index - last_applied\<close> times.
\<close>

fun apply_loop :: "nat \<Rightarrow> ('a raft_node, unit) comp" where
  "apply_loop 0 = returnM ()"
| "apply_loop (Suc k) =
     thenM (modifyM (\<lambda>n. n\<lparr>last_applied := last_applied n + 1\<rparr>)) (
     bindM (getM last_applied) (\<lambda>i.
     bindM (getM on_commit) (\<lambda>cb.
     thenM (if cb = None then returnM () else bindM (log_at i) (\<lambda>e. run_callback (command e) i)) (
     apply_loop k))))"

definition ApplyCommittedEntriesLocked :: "('a raft_node, unit) comp" where
  "ApplyCommittedEntriesLocked =
     bindM (getM (\<lambda>n. nat (commit_index n - last_applied n))) apply_loop"

text \<open>
  The loop of \<open>AdvanceCommitIndexLocked\<close> counts down from the last index of the log; the
  argument is the number of indices from 0 that are left.
\<close>

definition match_count :: "'a raft_node \<Rightarrow> int \<Rightarrow> nat" where
  "match_count n i = 1 + length (filter (\<lambda>p. match_index n (fst p) \<ge> i) (peers n))"

fun advance_loop :: "nat \<Rightarrow> ('a raft_node, unit) comp" where
  "advance_loop 0 = bindM (getM commit_index) (\<lambda>c. if -1 > c then throwM Undefined else returnM ())"
| "advance_loop (Suc k) =
     bindM (getM commit_index) (\<lambda>c.
     if \<not> int k > c then returnM ()
     else
       bindM (log_at (int k)) (\<lambda>e.
       bindM (getM (\<lambda>n. entry_term e = current_term n \<and> match_count n (int k) > cluster_size n div 2)) (\<lambda>ok.
       if ok then thenM (modifyM (\<lambda>n. n\<lparr>commit_index := int k\<rparr>)) ApplyCommittedEntriesLocked
       else advance_loop k)))"

definition AdvanceCommitIndexLocked :: "('a raft_node, unit) comp" where
  "AdvanceCommitIndexLocked = bindM (getM (\<lambda>n. length (log_entries n))) advance_loop"

section \<open>Incoming requests\<close>

definition HandleRequestVote :: "int \<Rightarrow> int \<Rightarrow> int \<Rightarrow> int \<Rightarrow> ('a raft_node, RpcMessage) comp" where
  "HandleRequestVote now timeout candidate_term candidate_id =
     bindM (getM (\<lambda>n. candidate_term \<ge> current_term n)) (\<lambda>current.
     bindM (if \<not> current then returnM False
       else
         thenM (modifyM (\<lambda>n. if candidate_term > current_term n
             then n\<lparr>current_term := candidate_term, voted_for := -1, raft_state := FOLLOWER, leader_id := -1\<rparr>
             else n)) (
         thenM (ResetElectionDeadlineLocked now timeout) (
         bindM (getM voted_for) (\<lambda>v.
         if v = -1 \<or> v = candidate_id then
           thenM (modifyM (\<lambda>n. n\<lparr>voted_for := candidate_id, raft_state := FOLLOWER, leader_id := -1\<rparr>)) (
           returnM True)
         else returnM False)))) (\<lambda>vote_granted.
     getM (\<lambda>n. \<lparr>msg_type = REQUEST_VOTE_REPLY, msg_term = current_term n, sender_id = node_id n,
                  payload = (if vote_granted then yes_payload else no_payload)\<rparr>)))"

text \<open>The loop over the received entries, on the log; \<open>index\<close> is that of the entry before.\<close>

fun store_entries :: "int \<Rightarrow> LogEntry list \<Rightarrow> LogEntry list \<Rightarrow> LogEntry list" where
  "store_entries index [] l = l"
| "store_entries index (e # es) l =
     (let i = index + 1 in
      if i < int (length l) then
        (if entry_term (l ! nat i) \<noteq> entry_term e
         then store_entries i es (take (nat i) l @ [e])
         else store_entries i es l)
      else store_entries i es (l @ [e]))"

text \<open>The consistency check, the new entries and the new commit index.\<close>

definition store_and_commit :: "int \<Rightarrow> int \<Rightarrow> int \<Rightarrow> LogEntry list \<Rightarrow> ('a raft_node, bool) comp" where
  "store_and_commit prev pt c es =
     bindM (getM (\<lambda>n. prev < int (length (log_entries n)))) (\<lambda>inside.
     bindM (if \<not> inside then returnM False
            else bindM (log_at prev) (\<lambda>e. returnM (entry_term e = pt))) (\<lambda>matches.
     if \<not> matches then returnM False
     else
       thenM (modifyM (\<lambda>n. n\<lparr>log_entries := store_entries prev es (log_entries n)\<rparr>)) (
       bindM (getM (\<lambda>n. c > commit_index n)) (\<lambda>newer.
       thenM (if newer
         then thenM (modifyM (\<lambda>n. n\<lparr>commit_index := min c (to_i64 (prev + int (length es)))\<rparr>))
                ApplyCommittedEntriesLocked
         else returnM ()) (
       returnM True)))))"

definition HandleAppendEntries ::
  "int \<Rightarrow> int \<Rightarrow> int \<Rightarrow> int \<Rightarrow> int \<Rightarrow> int \<Rightarrow> int \<Rightarrow> LogEntry list \<Rightarrow> ('a raft_node, RpcMessage) comp" where
  "HandleAppendEntries now timeout term leader prev_index prev_term commit es =
     bindM (getM (\<lambda>n. term \<ge> current_term n)) (\<lambda>current.
     bindM (if \<not> current then returnM False
       else
         thenM (modifyM (\<lambda>n. if term > current_term n then n\<lparr>current_term := term, voted_for := -1\<rparr> else n)) (
         thenM (modifyM (\<lambda>n. n\<lparr>raft_state := FOLLOWER, leader_id := leader\<rparr>)) (
         thenM (ResetElectionDeadlineLocked now timeout) (
         store_and_commit prev_index prev_term commit es)))) (\<lambda>success.
     getM (\<lambda>n. \<lparr>msg_type = APPEND_ENTRIES_REPLY, msg_term = current_term n, sender_id = node_id n,
                  payload = (if success then yes_payload else no_payload)\<rparr>)))"

definition HandleMessage :: "int \<Rightarrow> int \<Rightarrow> RpcMessage \<Rightarrow> ('a raft_node, RpcMessage) comp" where
  "HandleMessage now timeout m =
     (let pong = getM (\<lambda>n. \<lparr>msg_type = PONG, msg_term = current_term n, sender_id = node_id n, payload = []\<rparr>) in
      if msg_type m = REQUEST_VOTE then HandleRequestVote now timeout (msg_term m) (sender_id m)
      else if msg_type m = APPEND_ENTRIES then
        (case DeserializeAppendEntriesPayload (payload m) of
          None \<Rightarrow> pong
        | Some a \<Rightarrow> HandleAppendEntries now timeout (msg_term m) (sender_id m) (prev_log_index a)
                      (prev_log_term a) (leader_commit a) (entries a))
      else pong)"

section \<open>Elections and replication\<close>

definition become_leader :: "int \<Rightarrow> 'a raft_node \<Rightarrow> 'a raft_node" where
  "become_leader now n = n\<lparr>raft_state := LEADER, leader_id := node_id n, next_heartbeat := now,
     next_index := (\<lambda>p. if p \<in> fst ` set (peers n) then int (length (log_entries n)) else next_index n p),
     match_index := (\<lambda>p. if p \<in> fst ` set (peers n) then 0 else match_index n p)\<rparr>"

definition step_down :: "int \<Rightarrow> int \<Rightarrow> int \<Rightarrow> ('a raft_node, unit) comp" where
  "step_down now timeout term =
     thenM (modifyM (\<lambda>n. n\<lparr>current_term := term, voted_for := -1, raft_state := FOLLOWER, leader_id := -1\<rparr>))
       (ResetElectionDeadlineLocked now timeout)"

text \<open>The arguments for each peer that \<open>SendHeartbeats\<close> gathers under the lock.\<close>

fun gather_args :: "(int \<times> string) list \<Rightarrow> ('a raft_node, (int \<times> string \<times> AppendEntriesArgs) list) comp" where
  "gather_args [] = returnM []"
| "gather_args ((p, addr) # ps) =
     bindM (getM (\<lambda>n. next_index n p)) (\<lambda>next.
     bindM (log_at (next - 1)) (\<lambda>e.
     bindM (getM (\<lambda>n. \<lparr>prev_log_index = next - 1, prev_log_term = entry_term e, leader_commit = commit_index n,
                         entries = drop (nat next) (log_entries n)\<rparr>)) (\<lambda>a.
     bindM (gather_args ps) (\<lambda>rest. returnM ((p, addr, a) # rest)))))"

definition append_call :: "int \<Rightarrow> int \<Rightarrow> int \<times> string \<times> AppendEntriesArgs \<Rightarrow> rpc_call" where
  "append_call term i = (\<lambda>(p, addr, a). Append_Call p addr
     \<lparr>msg_type = APPEND_ENTRIES, msg_term = term, sender_id = i, payload = SerializeAppendEntriesPayload a\<rparr>
     (to_i64 (prev_log_index a + int (length (entries a)))))"

definition SendHeartbeats :: "('a raft_node, rpc_call list) comp" where
  "SendHeartbeats =
     bindM (getM (\<lambda>n. \<not> running n \<or> raft_state n \<noteq> LEADER)) (\<lambda>idle.
     if idle then returnM []
     else
       bindM (getM peers) (\<lambda>ps.
       bindM (gather_args ps) (\<lambda>args.
       getM (\<lambda>n. map (append_call (current_term n) (node_id n)) args))))"

text \<open>
  \<open>StartElection\<close>: the locked section, then the heartbeats of a leader elected by its own
  vote, or the vote requests of the term of the election.
\<close>

definition start_election_locked :: "int \<Rightarrow> int \<Rightarrow> ('a raft_node, (bool \<times> int) option) comp" where
  "start_election_locked now timeout =
     bindM (getM (\<lambda>n. \<not> running n \<or> raft_state n = LEADER)) (\<lambda>skip.
     if skip then returnM None
     else
       thenM (modifyM (\<lambda>n. n\<lparr>raft_state := CANDIDATE\<rparr>)) (
       bindM (getM current_term) (\<lambda>t.
       if t = 2 ^ 31 - 1 then throwM Undefined
       else
         thenM (modifyM (\<lambda>n. n\<lparr>current_term := t + 1, voted_for := node_id n, leader_id := -1,
                                 votes_received := {node_id n}\<rparr>)) (
         thenM (ResetElectionDeadlineLocked now timeout) (
         bindM (getM (\<lambda>n. card (votes_received n) > cluster_size n div 2)) (\<lambda>became_leader.
         thenM (if became_leader then modifyM (become_leader now) else returnM ()) (
         returnM (Some (became_leader, t + 1)))))))))"

definition vote_calls :: "int \<Rightarrow> 'a raft_node \<Rightarrow> rpc_call list" where
  "vote_calls term n = map (\<lambda>(p, addr). Vote_Call p addr
     \<lparr>msg_type = REQUEST_VOTE, msg_term = term, sender_id = node_id n, payload = []\<rparr> term) (peers n)"

definition StartElection :: "int \<Rightarrow> int \<Rightarrow> ('a raft_node, rpc_call list) comp" where
  "StartElection now timeout =
     bindM (start_election_locked now timeout) (\<lambda>r. case r of
       None \<Rightarrow> returnM []
     | Some (became_leader, term) \<Rightarrow>
         if became_leader then SendHeartbeats
         else bindM (getM running) (\<lambda>r. if \<not> r then returnM [] else getM (vote_calls term)))"

text \<open>One round of \<open>ElectionLoop\<close> after it wakes up at \<open>now\<close>.\<close>

definition ElectionLoop_round :: "int \<Rightarrow> int \<Rightarrow> ('a raft_node, rpc_call list) comp" where
  "ElectionLoop_round now timeout =
     bindM (getM (\<lambda>n. (running n, raft_state n = LEADER, next_heartbeat n, election_deadline n)))
       (\<lambda>(run, leader, heartbeat, deadline).
     if \<not> run then returnM []
     else if leader \<and> now \<ge> heartbeat then
       thenM (modifyM (\<lambda>n. n\<lparr>next_heartbeat := now + kHeartbeatInterval\<rparr>)) SendHeartbeats
     else if \<not> leader \<and> now \<ge> deadline then StartElection now timeout
     else returnM [])"

section \<open>Incoming replies\<close>

definition HandleVoteReply :: "int \<Rightarrow> int \<Rightarrow> int \<Rightarrow> int \<Rightarrow> RpcMessage \<Rightarrow> ('a raft_node, unit) comp" where
  "HandleVoteReply now timeout elect_term peer reply =
     bindM (getM running) (\<lambda>run.
     if \<not> run then returnM ()
     else
       bindM (getM current_term) (\<lambda>t.
       if msg_term reply > t then step_down now timeout (msg_term reply)
       else
         bindM (getM raft_state) (\<lambda>st.
         if st \<noteq> CANDIDATE \<or> t \<noteq> elect_term \<or> msg_type reply \<noteq> REQUEST_VOTE_REPLY \<or>
            msg_term reply \<noteq> elect_term \<or> payload reply \<noteq> yes_payload
         then returnM ()
         else
           thenM (modifyM (\<lambda>n. n\<lparr>votes_received := insert peer (votes_received n)\<rparr>)) (
           modifyM (\<lambda>n. if card (votes_received n) > cluster_size n div 2 then become_leader now n else n)))))"

definition HandleAppendEntriesReply :: "int \<Rightarrow> int \<Rightarrow> int \<Rightarrow> RpcMessage \<Rightarrow> int \<Rightarrow> ('a raft_node, unit) comp" where
  "HandleAppendEntriesReply now timeout peer reply sent_match_index =
     bindM (getM (\<lambda>n. \<not> running n \<or> raft_state n \<noteq> LEADER)) (\<lambda>idle.
     if idle then returnM ()
     else
       bindM (getM current_term) (\<lambda>t.
       if msg_term reply > t then step_down now timeout (msg_term reply)
       else if msg_type reply = APPEND_ENTRIES_REPLY then
         (if payload reply = yes_payload then
            thenM (modifyM (\<lambda>n. n\<lparr>match_index := (match_index n)(peer := max (match_index n peer) sent_match_index)\<rparr>)) (
            thenM (modifyM (\<lambda>n. n\<lparr>next_index := (next_index n)(peer := match_index n peer + 1)\<rparr>)) (
            AdvanceCommitIndexLocked))
          else modifyM (\<lambda>n. n\<lparr>next_index := (next_index n)(peer := max 1 (next_index n peer - 1))\<rparr>))
       else returnM ()))"

section \<open>Peer addresses\<close>

text \<open>
  \<open>std::stoi\<close>: white space, a sign, digits; \<open>None\<close> when it throws. What follows the digits is
  ignored.
\<close>

definition digit_of :: "char \<Rightarrow> int" where
  "digit_of c = of_char c - 48"

definition is_digit :: "char \<Rightarrow> bool" where
  "is_digit c \<longleftrightarrow> (48::int) \<le> of_char c \<and> of_char c \<le> (57::int)"

definition is_space :: "char \<Rightarrow> bool" where
  "is_space c \<longleftrightarrow> of_char c = (32::int) \<or> ((9::int) \<le> of_char c \<and> of_char c \<le> (13::int))"

definition digits_value :: "string \<Rightarrow> int" where
  "digits_value ds = foldl (\<lambda>v c. 10 * v + digit_of c) 0 ds"

definition stoi :: "string \<Rightarrow> int option" where
  "stoi s =
     (let s1 = dropWhile is_space s;
          neg = (s1 \<noteq> [] \<and> hd s1 = CHR ''-'');
          s2 = (if s1 \<noteq> [] \<and> (hd s1 = CHR ''-'' \<or> hd s1 = CHR ''+'') then tl s1 else s1);
          ds = takeWhile is_digit s2;
          v = (if neg then - digits_value ds else digits_value ds)
      in if ds = [] \<or> \<not> in_i32 v then None else Some v)"

definition ParsePeerAddress :: "string \<Rightarrow> (string \<times> int) option" where
  "ParsePeerAddress addr =
     (if CHR '':'' \<notin> set addr then None
      else
        let separator = length addr - 1 - length (takeWhile (\<lambda>c. c \<noteq> CHR '':'') (rev addr)) in
        if separator = 0 \<or> separator + 1 = length addr then None
        else (case stoi (drop (separator + 1) addr) of
            None \<Rightarrow> None
          | Some port \<Rightarrow> if port \<le> 0 \<or> port > 65535 then None else Some (take separator addr, port)))"

end
