(* ===== verification/Raft_Cluster.thy ===== *)
theory Raft_Cluster
  imports Raft_Node
begin

text \<open>
  A cluster of Raft nodes that exchange messages over a network which may lose, delay, reorder
  and repeat them, and its safety: at most one leader per term, and log matching.

  A step is one handler of one node. The calls and replies that were ever sent stay in the
  network and may be delivered any number of times or never. Three history variables, which
  no step reads, record the votes that were cast, the leaders of every term and the logs that
  the nodes have had.
\<close>

section \<open>Clusters and their steps\<close>

record 'a cluster =
  node_at :: "int \<Rightarrow> 'a raft_node"
  calls :: "(int \<times> rpc_call) set"
  replies :: "(int \<times> rpc_call \<times> RpcMessage) set"
  ballots :: "(int \<times> int \<times> int) set"
  leaders :: "(int \<times> int) set"
  logs :: "LogEntry list set"

definition update :: "int \<Rightarrow> 'a raft_node \<Rightarrow> 'a cluster \<Rightarrow> 'a cluster" where
  "update i n s = s\<lparr>node_at := (node_at s)(i := n),
     ballots := (if voted_for n = -1 then ballots s else insert (i, voted_for n, current_term n) (ballots s)),
     leaders := (if raft_state n = LEADER then insert (current_term n, i) (leaders s) else leaders s),
     logs := insert (log_entries n) (logs s)\<rparr>"

text \<open>A thread sends its call when it can parse the address of the peer.\<close>

definition sent :: "int \<Rightarrow> rpc_call list res \<Rightarrow> (int \<times> rpc_call) set" where
  "sent i r = (case r of Inl _ \<Rightarrow> {} | Inr cs \<Rightarrow> Pair i ` set (filter (\<lambda>c. ParsePeerAddress (address c) \<noteq> None) cs))"

definition replied :: "int \<Rightarrow> rpc_call \<Rightarrow> RpcMessage res \<Rightarrow> (int \<times> rpc_call \<times> RpcMessage) set" where
  "replied i c r = (case r of Inl _ \<Rightarrow> {} | Inr m \<Rightarrow> {(i, c, m)})"

text \<open>
  The members are nodes with different non-negative ids, each with all others as its peers.
\<close>

definition initial :: "int list \<Rightarrow> 'a cluster \<Rightarrow> bool" where
  "initial N s \<longleftrightarrow> distinct N \<and> (\<forall>i \<in> set N. 0 \<le> i \<and> in_i32 i) \<and>
     (\<forall>i \<in> set N. \<exists>ps port a. node_at s i = RaftNode i ps port a \<and> map fst ps = remove1 i N) \<and>
     calls s = {} \<and> replies s = {} \<and> ballots s = {} \<and> leaders s = {} \<and>
     logs s = {[\<lparr>entry_term = 0, entry_index = 0, command = []\<rparr>]}"

text \<open>
  \<open>propose\<close> is limited to commands and logs whose sizes fit the 32-bit fields of the wire
  format, and \<open>wake_up\<close> to terms below the limit of the 32-bit counter.
\<close>

inductive reach :: "int list \<Rightarrow> 'a cluster \<Rightarrow> bool" for N :: "int list" where
  init: "initial N s \<Longrightarrow> reach N s"
| start: "reach N s \<Longrightarrow> i \<in> set N \<Longrightarrow> Start srv now to (node_at s i) = (r, n) \<Longrightarrow>
    reach N (update i n s)"
| stop: "reach N s \<Longrightarrow> i \<in> set N \<Longrightarrow> Stop (node_at s i) = (r, n) \<Longrightarrow> reach N (update i n s)"
| callback: "reach N s \<Longrightarrow> i \<in> set N \<Longrightarrow> SetOnCommitCallback cb (node_at s i) = (r, n) \<Longrightarrow>
    reach N (update i n s)"
| propose: "reach N s \<Longrightarrow> i \<in> set N \<Longrightarrow> length cmd < 2 ^ 32 \<Longrightarrow>
    length (log_entries (node_at s i)) < 2 ^ 32 \<Longrightarrow> Propose cmd (node_at s i) = (r, n) \<Longrightarrow>
    reach N (update i n s)"
| wake_up: "reach N s \<Longrightarrow> i \<in> set N \<Longrightarrow> current_term (node_at s i) < 2 ^ 31 - 1 \<Longrightarrow>
    ElectionLoop_round now to (node_at s i) = (r, n) \<Longrightarrow>
    reach N ((update i n s)\<lparr>calls := calls s \<union> sent i r\<rparr>)"
| request: "reach N s \<Longrightarrow> (i, c) \<in> calls s \<Longrightarrow>
    HandleMessage now to (request c) (node_at s (callee c)) = (r, n) \<Longrightarrow>
    reach N ((update (callee c) n s)\<lparr>replies := replies s \<union> replied i c r\<rparr>)"
| vote_reply: "reach N s \<Longrightarrow> (i, Vote_Call p addr rq t, m) \<in> replies s \<Longrightarrow>
    HandleVoteReply now to t p m (node_at s i) = (r, n) \<Longrightarrow> reach N (update i n s)"
| append_reply: "reach N s \<Longrightarrow> (i, Append_Call p addr rq k, m) \<in> replies s \<Longrightarrow>
    HandleAppendEntriesReply now to p m k (node_at s i) = (r, n) \<Longrightarrow> reach N (update i n s)"

section \<open>Effects of the handlers\<close>

text \<open>The part of a node that elections and logs depend on.\<close>

definition core :: "'a raft_node \<Rightarrow> int \<times> (int \<times> string) list \<times> int \<times> int \<times> RaftState \<times> int set \<times> LogEntry list" where
  "core n = (node_id n, peers n, current_term n, voted_for n, raft_state n, votes_received n, log_entries n)"

lemma core_eqD:
  assumes "core n' = core n"
  shows "node_id n' = node_id n" "peers n' = peers n" "current_term n' = current_term n"
    "voted_for n' = voted_for n" "raft_state n' = raft_state n" "votes_received n' = votes_received n"
    "log_entries n' = log_entries n"
  using assms by (simp_all add: core_def)

lemma keeps_modify: "(\<And>s. P s \<Longrightarrow> P (f s)) \<Longrightarrow> keeps P (modifyM f)"
  by (simp add: keeps_def modifyM_def)

lemma keeps_if [keeps_rules]: "keeps P m \<Longrightarrow> keeps P m' \<Longrightarrow> keeps P (if b then m else m')"
  by simp

lemma keeps_log_at [keeps_rules]: "keeps P (log_at i)"
  unfolding log_at_def by (intro keeps_rules)

lemma keeps_callback [keeps_rules]: "keeps (\<lambda>n. core n = c) (run_callback cmd i)"
  by (auto simp: keeps_def run_callback_def core_def split: option.splits prod.splits)

lemma apply_loop_core [keeps_rules]: "keeps (\<lambda>n. core n = c) (apply_loop k)"
proof (induction k)
  case (Suc k)
  have "keeps (\<lambda>n. core n = c) (modifyM (\<lambda>n. n\<lparr>last_applied := last_applied n + 1\<rparr>))"
    by (rule keeps_modify) (simp add: core_def)
  then show ?case unfolding apply_loop.simps by (intro keeps_rules Suc)
qed (auto intro!: keeps_rules)

lemma apply_core [keeps_rules]: "keeps (\<lambda>n. core n = c) ApplyCommittedEntriesLocked"
  unfolding ApplyCommittedEntriesLocked_def by (intro keeps_rules)

lemma advance_loop_core [keeps_rules]: "keeps (\<lambda>n. core n = c) (advance_loop k)"
proof (induction k)
  case (Suc k)
  have "keeps (\<lambda>n. core n = c) (modifyM (\<lambda>n. n\<lparr>commit_index := int k\<rparr>))"
    by (rule keeps_modify) (simp add: core_def)
  then show ?case unfolding advance_loop.simps by (intro keeps_rules Suc)
qed (auto intro!: keeps_rules)

lemma advance_core [keeps_rules]: "keeps (\<lambda>n. core n = c) AdvanceCommitIndexLocked"
  unfolding AdvanceCommitIndexLocked_def by (intro keeps_rules)

lemma gather_args_keeps [keeps_rules]: "keeps P (gather_args ps)"
  by (induction ps rule: gather_args.induct) (auto intro!: keeps_rules)

lemma SendHeartbeats_keeps [keeps_rules]: "keeps P SendHeartbeats"
  unfolding SendHeartbeats_def by (intro keeps_rules)

text \<open>
  Terms do not decrease, and within a term a vote that has been cast stays.
\<close>

definition forward :: "'a raft_node \<Rightarrow> 'a raft_node \<Rightarrow> bool" where
  "forward n n' \<longleftrightarrow> node_id n' = node_id n \<and> peers n' = peers n \<and>
     (current_term n < current_term n' \<or>
      current_term n' = current_term n \<and> (voted_for n = -1 \<or> voted_for n' = voted_for n))"

text \<open>A change without consequences for an election that is going on, and without a change of the log.\<close>

definition plain :: "'a raft_node \<Rightarrow> 'a raft_node \<Rightarrow> bool" where
  "plain n n' \<longleftrightarrow> forward n n' \<and> log_entries n' = log_entries n \<and>
     (raft_state n' = FOLLOWER \<or>
      raft_state n' = raft_state n \<and> votes_received n' = votes_received n \<and> current_term n' = current_term n)"

lemma plain_core: "core n' = core n \<Longrightarrow> plain n n'"
  by (simp add: plain_def forward_def core_def)

lemma Start_plain: "Start srv now to n = (r, n') \<Longrightarrow> plain n n'"
  by (cases srv) (auto simp: Start_def steps ResetElectionDeadlineLocked_def plain_def forward_def split: if_splits)

lemma Stop_plain: "Stop n = (r, n') \<Longrightarrow> plain n n'"
  by (auto simp: Stop_def steps plain_def forward_def)

lemma SetOnCommitCallback_plain: "SetOnCommitCallback cb n = (r, n') \<Longrightarrow> plain n n'"
  by (auto simp: SetOnCommitCallback_def steps plain_def forward_def)

lemma Propose_effect:
  assumes "Propose cmd n = (r, n')"
  shows "n' = n \<or> raft_state n = LEADER \<and> n' = n\<lparr>log_entries := log_entries n @
    [\<lparr>entry_term = current_term n, entry_index = int (length (log_entries n)), command = cmd\<rparr>]\<rparr>"
  using assms by (auto simp: Propose_def steps split: if_splits)

lemma HandleRequestVote_effect:
  assumes "HandleRequestVote now to t c n = (r, n')"
  shows "plain n n'" and "\<exists>m. r = Inr m \<and> msg_type m = REQUEST_VOTE_REPLY \<and> msg_term m = current_term n' \<and>
    (payload m = yes_payload \<and> msg_term m = t \<longrightarrow> voted_for n' = c)"
    and "current_term n' = max t (current_term n)"
  using assms
  by (auto simp: HandleRequestVote_def steps ResetElectionDeadlineLocked_def plain_def forward_def
      yes_payload_def no_payload_def split: if_splits)

lemma step_down_effect:
  "step_down now to t n = (r, n') \<Longrightarrow> current_term n < t \<Longrightarrow> plain n n' \<and> current_term n' = t"
  by (auto simp: step_down_def steps ResetElectionDeadlineLocked_def plain_def forward_def)

lemma advance_D: "AdvanceCommitIndexLocked n = (r, n') \<Longrightarrow> core n' = core n"
  using keeps_D [OF advance_core] by blast

lemma apply_D: "ApplyCommittedEntriesLocked n = (r, n') \<Longrightarrow> core n' = core n"
  using keeps_D [OF apply_core] by blast

lemma SendHeartbeats_D: "SendHeartbeats n = (r, n') \<Longrightarrow> n' = n"
  using keeps_D [OF SendHeartbeats_keeps, of "\<lambda>x. x = n"] by blast

lemma HandleAppendEntriesReply_effect:
  assumes "HandleAppendEntriesReply now to p m k n = (r, n')"
  shows "plain n n' \<and> current_term n' \<in> {current_term n, msg_term m}"
proof (cases "running n \<and> raft_state n = LEADER \<and> msg_term m > current_term n")
  case True
  then show ?thesis
    using assms step_down_effect [of now to "msg_term m" n r n'] by (auto simp: HandleAppendEntriesReply_def steps)
next
  case False
  then have "core n' = core n"
    using assms
    by (auto simp: HandleAppendEntriesReply_def steps core_def dest!: advance_D split: if_splits)
  then show ?thesis using plain_core core_eqD(3) by blast
qed

lemma become_leader_fields [simp]:
  "node_id (become_leader now n) = node_id n" "peers (become_leader now n) = peers n"
  "current_term (become_leader now n) = current_term n" "voted_for (become_leader now n) = voted_for n"
  "raft_state (become_leader now n) = LEADER" "votes_received (become_leader now n) = votes_received n"
  "log_entries (become_leader now n) = log_entries n" "running (become_leader now n) = running n"
  by (simp_all add: become_leader_def)

lemma HandleVoteReply_effect:
  assumes "HandleVoteReply now to t p m n = (r, n')"
  shows "plain n n' \<and> current_term n' \<in> {current_term n, msg_term m} \<or>
    raft_state n = CANDIDATE \<and> current_term n = t \<and> msg_type m = REQUEST_VOTE_REPLY \<and> msg_term m = t \<and>
    payload m = yes_payload \<and>
    node_id n' = node_id n \<and> peers n' = peers n \<and> current_term n' = t \<and> voted_for n' = voted_for n \<and>
    log_entries n' = log_entries n \<and> votes_received n' = insert p (votes_received n) \<and>
    raft_state n' = (if card (votes_received n') > cluster_size n div 2 then LEADER else CANDIDATE)"
proof -
  let ?counts = "raft_state n = CANDIDATE \<and> current_term n = t \<and> msg_type m = REQUEST_VOTE_REPLY \<and>
    msg_term m = t \<and> payload m = yes_payload"
  let ?n1 = "n\<lparr>votes_received := insert p (votes_received n)\<rparr>"
  consider "running n" "msg_term m > current_term n" | "running n" "\<not> msg_term m > current_term n" ?counts
    | "running n \<longrightarrow> \<not> msg_term m > current_term n \<and> \<not> ?counts" by blast
  then show ?thesis
  proof cases
    case 1
    then show ?thesis
      using assms step_down_effect [of now to "msg_term m" n r n'] by (simp add: HandleVoteReply_def steps)
  next
    case 2
    then have "n' = (if card (votes_received ?n1) > cluster_size ?n1 div 2 then become_leader now ?n1 else ?n1)"
      using assms by (simp add: HandleVoteReply_def steps)
    then show ?thesis using 2(3) by (simp add: cluster_size_def)
  next
    case 3
    then have "n' = n" using assms by (auto simp: HandleVoteReply_def steps split: if_splits)
    then show ?thesis using plain_core [of n n] by simp
  qed
qed

lemma StartElection_effect:
  assumes "StartElection now to n = (r, n')" and "current_term n < 2 ^ 31 - 1"
  shows "n' = n \<and> r = Inr [] \<or>
    node_id n' = node_id n \<and> peers n' = peers n \<and> current_term n' = current_term n + 1 \<and>
    voted_for n' = node_id n \<and> log_entries n' = log_entries n \<and> votes_received n' = {node_id n} \<and>
    raft_state n' = (if 1 > cluster_size n div 2 then LEADER else CANDIDATE) \<and>
    (r = Inr [] \<or> r = Inr (vote_calls (current_term n') n') \<or> raft_state n' = LEADER \<and> SendHeartbeats n' = (r, n'))"
proof -
  let ?n1 = "n\<lparr>raft_state := CANDIDATE, current_term := current_term n + 1, voted_for := node_id n, leader_id := -1,
    votes_received := {node_id n}, election_deadline := now + to\<rparr>"
  consider "\<not> running n \<or> raft_state n = LEADER" | "running n" "raft_state n \<noteq> LEADER" "1 > cluster_size n div 2"
    | "running n" "raft_state n \<noteq> LEADER" "\<not> 1 > cluster_size n div 2" by blast
  then show ?thesis
  proof cases
    case 1
    then show ?thesis using assms by (auto simp: StartElection_def start_election_locked_def steps)
  next
    case 2
    then have "SendHeartbeats (become_leader now ?n1) = (r, n')"
      using assms by (simp add: StartElection_def start_election_locked_def steps ResetElectionDeadlineLocked_def cluster_size_def)
    moreover have "n' = become_leader now ?n1" using SendHeartbeats_D calculation by blast
    ultimately show ?thesis using 2 by (simp add: cluster_size_def)
  next
    case 3
    then have "(r, n') = (Inr (vote_calls (current_term n + 1) ?n1), ?n1)"
      using assms by (auto simp: StartElection_def start_election_locked_def steps ResetElectionDeadlineLocked_def
          cluster_size_def)
    then show ?thesis using 3 by (simp add: cluster_size_def)
  qed
qed

lemma store_and_commit_effect:
  assumes "store_and_commit prev pt c es n = (r, n')"
  shows "core n' = core n \<or> 0 \<le> prev \<and> prev < int (length (log_entries n)) \<and>
    entry_term (log_entries n ! nat prev) = pt \<and>
    core n' = core (n\<lparr>log_entries := store_entries prev es (log_entries n)\<rparr>)"
proof (cases "0 \<le> prev \<and> prev < int (length (log_entries n)) \<and> entry_term (log_entries n ! nat prev) = pt")
  case False
  then have "n' = n"
    using assms by (auto simp: store_and_commit_def steps log_at_def split: if_splits)
  then show ?thesis by simp
next
  case True
  let ?n2 = "n\<lparr>log_entries := store_entries prev es (log_entries n)\<rparr>"
  let ?n3 = "?n2\<lparr>commit_index := min c (to_i64 (prev + int (length es)))\<rparr>"
  have "thenM (if c > commit_index n
         then thenM (modifyM (\<lambda>n. n\<lparr>commit_index := min c (to_i64 (prev + int (length es)))\<rparr>))
                ApplyCommittedEntriesLocked
         else returnM ()) (returnM True) ?n2 = (r, n')"
    using assms True by (simp add: store_and_commit_def steps log_at_def split: if_splits)
  moreover have "core n4 = core ?n2" if "ApplyCommittedEntriesLocked ?n3 = (x, n4)" for x n4
    using apply_D [OF that] by (simp add: core_def)
  ultimately have "core n' = core ?n2"
    by (auto simp: steps split: if_splits) (auto simp: thenM_def bindM_def returnM_def split: prod.splits sum.splits)
  then show ?thesis using True by blast
qed

lemma HandleAppendEntries_effect:
  assumes "HandleAppendEntries now to t leader prev pt c es n = (r, n')"
  shows "(plain n n' \<or> forward n n' \<and> raft_state n' = FOLLOWER \<and> 0 \<le> prev \<and> prev < int (length (log_entries n)) \<and>
      entry_term (log_entries n ! nat prev) = pt \<and> log_entries n' = store_entries prev es (log_entries n)) \<and>
    current_term n' = max t (current_term n) \<and>
    (\<forall>m. r = Inr m \<longrightarrow> msg_type m = APPEND_ENTRIES_REPLY \<and> msg_term m = current_term n')"
proof (cases "t \<ge> current_term n")
  case False
  then have "n' = n \<and> (\<forall>m. r = Inr m \<longrightarrow> msg_type m = APPEND_ENTRIES_REPLY \<and> msg_term m = current_term n)"
    using assms by (auto simp: HandleAppendEntries_def steps)
  then show ?thesis using False plain_core [of n n] by auto
next
  case True
  define n1 where "n1 = (if t > current_term n then n\<lparr>current_term := t, voted_for := -1\<rparr> else n)
    \<lparr>raft_state := FOLLOWER, leader_id := leader, election_deadline := now + to\<rparr>"
  have n1: "forward n n1" "raft_state n1 = FOLLOWER" "log_entries n1 = log_entries n" "current_term n1 = max t (current_term n)"
    using True by (auto simp: n1_def forward_def)
  have "bindM (store_and_commit prev pt c es) (\<lambda>success. getM (\<lambda>n. \<lparr>msg_type = APPEND_ENTRIES_REPLY,
      msg_term = current_term n, sender_id = node_id n,
      payload = (if success then yes_payload else no_payload)\<rparr>)) n1 = (r, n')"
    using assms True
    by (simp add: HandleAppendEntries_def steps ResetElectionDeadlineLocked_def n1_def)
  then obtain x where x: "store_and_commit prev pt c es n1 = (x, n')"
    "\<forall>m. r = Inr m \<longrightarrow> msg_type m = APPEND_ENTRIES_REPLY \<and> msg_term m = current_term n'"
    by (auto simp: bindM_def getM_def split: prod.splits sum.splits)
  from store_and_commit_effect [OF x(1)] show ?thesis
  proof
    assume "core n' = core n1"
    then show ?thesis using core_eqD [of n' n1] n1 x(2) by (simp add: plain_def forward_def)
  next
    assume *: "0 \<le> prev \<and> prev < int (length (log_entries n1)) \<and> entry_term (log_entries n1 ! nat prev) = pt \<and>
      core n' = core (n1\<lparr>log_entries := store_entries prev es (log_entries n1)\<rparr>)"
    then have "node_id n' = node_id n1" "peers n' = peers n1" "current_term n' = current_term n1"
      "voted_for n' = voted_for n1" "raft_state n' = FOLLOWER" "log_entries n' = store_entries prev es (log_entries n)"
      using n1 by (simp_all add: core_def)
    then show ?thesis using * n1 x(2) by (simp add: forward_def)
  qed
qed

lemma HandleMessage_effect:
  assumes "HandleMessage now to m n = (r, n')"
  shows "(plain n n' \<or> msg_type m = APPEND_ENTRIES \<and> (\<exists>a. DeserializeAppendEntriesPayload (payload m) = Some a \<and>
      forward n n' \<and> raft_state n' = FOLLOWER \<and> 0 \<le> prev_log_index a \<and>
      prev_log_index a < int (length (log_entries n)) \<and>
      entry_term (log_entries n ! nat (prev_log_index a)) = prev_log_term a \<and>
      log_entries n' = store_entries (prev_log_index a) (entries a) (log_entries n))) \<and>
    current_term n' \<in> {current_term n, msg_term m} \<and>
    (\<forall>x. r = Inr x \<longrightarrow> msg_term x = current_term n' \<and>
      (msg_type x = REQUEST_VOTE_REPLY \<and> payload x = yes_payload \<and> msg_term x = msg_term m \<longrightarrow>
        voted_for n' = sender_id m))"
proof -
  let ?pong = "\<lparr>msg_type = PONG, msg_term = current_term n, sender_id = node_id n, payload = []\<rparr>"
  consider (vote) "msg_type m = REQUEST_VOTE"
    | (append) a where "msg_type m = APPEND_ENTRIES" "DeserializeAppendEntriesPayload (payload m) = Some a"
    | (other) "msg_type m \<noteq> REQUEST_VOTE"
        "msg_type m = APPEND_ENTRIES \<longrightarrow> DeserializeAppendEntriesPayload (payload m) = None"
    by fastforce
  then show ?thesis
  proof cases
    case vote
    then have "HandleRequestVote now to (msg_term m) (sender_id m) n = (r, n')"
      using assms by (simp add: HandleMessage_def Let_def)
    from HandleRequestVote_effect [OF this] show ?thesis by (auto simp: max_def)
  next
    case append
    then have "HandleAppendEntries now to (msg_term m) (sender_id m) (prev_log_index a) (prev_log_term a)
        (leader_commit a) (entries a) n = (r, n')"
      using assms by (simp add: HandleMessage_def Let_def)
    from HandleAppendEntries_effect [OF this] append show ?thesis by (auto simp: max_def)
  next
    case other
    then have "(r, n') = (Inr ?pong, n)"
      using assms by (cases "msg_type m = APPEND_ENTRIES") (auto simp: HandleMessage_def Let_def steps)
    then show ?thesis using plain_core [of n n] by auto
  qed
qed

lemma log_at_Inr: "log_at i n = (Inr e, n') \<Longrightarrow> 0 \<le> i \<and> i < int (length (log_entries n)) \<and> e = log_entries n ! nat i \<and> n' = n"
  by (auto simp: log_at_def steps split: if_splits)

lemma gather_args_calls:
  assumes "gather_args ps n = (Inr args, n')" and "(p, addr, a) \<in> set args"
  shows "(p, addr) \<in> set ps \<and> (\<exists>k < length (log_entries n). a = \<lparr>prev_log_index = int k,
    prev_log_term = entry_term (log_entries n ! k), leader_commit = commit_index n,
    entries = drop (Suc k) (log_entries n)\<rparr>)"
  using assms
proof (induction ps arbitrary: args n' rule: gather_args.induct)
  case 1
  then show ?case by (simp add: steps)
next
  case (2 q ad ps)
  let ?k = "next_index n q - 1"
  from 2(2) obtain e n1 where e: "log_at ?k n = (Inr e, n1)"
    by (auto simp: steps elim!: bindM_Inr_E)
  note l = log_at_Inr [OF e]
  with e 2(2) obtain rest where rest: "gather_args ps n = (Inr rest, n')"
    "args = (q, ad, \<lparr>prev_log_index = ?k, prev_log_term = entry_term e, leader_commit = commit_index n,
        entries = drop (nat (next_index n q)) (log_entries n)\<rparr>) # rest"
    by (auto simp: steps elim!: bindM_Inr_E)
  have k: "nat (next_index n q) = Suc (nat ?k)" "nat ?k < length (log_entries n)" "int (nat ?k) = ?k" using l by auto
  from 2(3) rest(2) consider "(p, addr, a) \<in> set rest" | "(p, addr) = (q, ad)"
    "a = \<lparr>prev_log_index = ?k, prev_log_term = entry_term e, leader_commit = commit_index n,
        entries = drop (nat (next_index n q)) (log_entries n)\<rparr>" by auto
  then show ?case
  proof cases
    case 1
    then show ?thesis using 2(1) rest(1) by simp
  next
    case 2
    then show ?thesis using k l by (auto intro!: exI [of _ "nat ?k"])
  qed
qed

lemma SendHeartbeats_calls:
  assumes "SendHeartbeats n = (Inr cs, n')" and "c \<in> set cs"
  shows "raft_state n = LEADER \<and> (\<exists>p addr k ln. (p, addr) \<in> set (peers n) \<and> k < length (log_entries n) \<and>
    c = Append_Call p addr \<lparr>msg_type = APPEND_ENTRIES, msg_term = current_term n, sender_id = node_id n,
      payload = SerializeAppendEntriesPayload \<lparr>prev_log_index = int k,
        prev_log_term = entry_term (log_entries n ! k), leader_commit = commit_index n,
        entries = drop (Suc k) (log_entries n)\<rparr>\<rparr> ln)"
proof (cases "\<not> running n \<or> raft_state n \<noteq> LEADER")
  case True
  then show ?thesis using assms by (simp add: SendHeartbeats_def steps)
next
  case False
  with assms(1) obtain args n1 where g: "gather_args (peers n) n = (Inr args, n1)"
    "cs = map (append_call (current_term n1) (node_id n1)) args"
    by (auto simp: SendHeartbeats_def steps elim!: bindM_Inr_E)
  have "n1 = n" using keeps_D [OF gather_args_keeps, of "\<lambda>x. x = n"] g(1) by blast
  with g assms(2) obtain p addr a where "(p, addr, a) \<in> set args"
    "c = append_call (current_term n) (node_id n) (p, addr, a)" by auto
  with gather_args_calls [OF g(1) this(1)] False show ?thesis by (auto simp: append_call_def)
qed

text \<open>The calls that a node makes in its current state.\<close>

definition own_call :: "'a raft_node \<Rightarrow> rpc_call \<Rightarrow> bool" where
  "own_call n c \<longleftrightarrow> (\<exists>p addr. (p, addr) \<in> set (peers n) \<and>
     (c = Vote_Call p addr \<lparr>msg_type = REQUEST_VOTE, msg_term = current_term n, sender_id = node_id n, payload = []\<rparr>
        (current_term n) \<or>
      (\<exists>k ln. k < length (log_entries n) \<and>
        c = Append_Call p addr \<lparr>msg_type = APPEND_ENTRIES, msg_term = current_term n, sender_id = node_id n,
          payload = SerializeAppendEntriesPayload \<lparr>prev_log_index = int k,
            prev_log_term = entry_term (log_entries n ! k), leader_commit = commit_index n,
            entries = drop (Suc k) (log_entries n)\<rparr>\<rparr> ln)))"

lemma SendHeartbeats_own: "SendHeartbeats n = (Inr cs, n') \<Longrightarrow> c \<in> set cs \<Longrightarrow> n' = n \<and> own_call n c"
  using SendHeartbeats_D [of n "Inr cs" n'] SendHeartbeats_calls [of n cs n' c] unfolding own_call_def by blast

lemma vote_calls_own: "c \<in> set (vote_calls (current_term n) n) \<Longrightarrow> own_call n c"
  unfolding own_call_def vote_calls_def by fastforce

lemma ElectionLoop_round_effect:
  assumes "ElectionLoop_round now to n = (r, n')" and "current_term n < 2 ^ 31 - 1"
  shows "(core n' = core n \<or>
      node_id n' = node_id n \<and> peers n' = peers n \<and> current_term n' = current_term n + 1 \<and>
      voted_for n' = node_id n \<and> log_entries n' = log_entries n \<and> votes_received n' = {node_id n} \<and>
      raft_state n' = (if 1 > cluster_size n div 2 then LEADER else CANDIDATE)) \<and>
    (\<forall>cs. r = Inr cs \<longrightarrow> (\<forall>c \<in> set cs. own_call n' c))"
proof -
  let ?h = "n\<lparr>next_heartbeat := now + kHeartbeatInterval\<rparr>"
  consider (idle) "ElectionLoop_round now to n = (Inr [], n)" | (beat) "SendHeartbeats ?h = (r, n')"
    | (elect) "StartElection now to n = (r, n')"
    using assms(1) by (auto simp: ElectionLoop_round_def steps split: if_splits)
  then show ?thesis
  proof cases
    case idle
    then show ?thesis using assms(1) by auto
  next
    case beat
    then have "n' = ?h" using SendHeartbeats_D by blast
    then show ?thesis using beat SendHeartbeats_own [of ?h] by (auto simp: core_def)
  next
    case elect
    have "\<forall>c \<in> set cs. own_call n' c" if "SendHeartbeats n' = (Inr cs, n')" for cs
      using SendHeartbeats_own [OF that] by blast
    then show ?thesis using StartElection_effect [OF elect assms(2)] vote_calls_own [of _ n'] by auto
  qed
qed

end
