(* ===== verification/Raft_Trace.thy ===== *)
theory Raft_Trace
  imports Raft_Cluster
begin

text \<open>
  Executable runs of a cluster: a list of actions is run step by step, and a run that
  succeeds ends in a reachable cluster. The runs at the end are used as examples and
  counterexamples.
\<close>

section \<open>Running actions\<close>

datatype action =
    Act_Start int int int
  | Act_Propose int bytes
  | Act_Wake_Up int int int
  | Act_Request int rpc_call
  | Act_Vote_Reply int rpc_call RpcMessage
  | Act_Append_Reply int rpc_call RpcMessage

fun perform :: "int list \<Rightarrow> action \<Rightarrow> 'a cluster \<Rightarrow> 'a cluster option" where
  "perform N (Act_Start i now to) s =
     (if i \<in> set N then Some (update i (snd (Start (Inr ()) now to (node_at s i))) s) else None)"
| "perform N (Act_Propose i cmd) s =
     (if i \<in> set N \<and> int (length cmd) < 2 ^ 32 \<and> int (length (log_entries (node_at s i))) < 2 ^ 32
      then Some (update i (snd (Propose cmd (node_at s i))) s) else None)"
| "perform N (Act_Wake_Up i now to) s =
     (if i \<in> set N \<and> current_term (node_at s i) < 2 ^ 31 - 1
      then (case ElectionLoop_round now to (node_at s i) of (r, n) \<Rightarrow>
        Some ((update i n s)\<lparr>calls := calls s \<union> sent i r\<rparr>)) else None)"
| "perform N (Act_Request i c) s =
     (if (i, c) \<in> calls s
      then (case HandleMessage 0 0 (request c) (node_at s (callee c)) of (r, n) \<Rightarrow>
        Some ((update (callee c) n s)\<lparr>replies := replies s \<union> replied i c r\<rparr>)) else None)"
| "perform N (Act_Vote_Reply i c m) s =
     (case c of Vote_Call p addr rq t \<Rightarrow>
        if (i, c, m) \<in> replies s then Some (update i (snd (HandleVoteReply 0 0 t p m (node_at s i))) s) else None
      | _ \<Rightarrow> None)"
| "perform N (Act_Append_Reply i c m) s =
     (case c of Append_Call p addr rq k \<Rightarrow>
        if (i, c, m) \<in> replies s then Some (update i (snd (HandleAppendEntriesReply 0 0 p m k (node_at s i))) s) else None
      | _ \<Rightarrow> None)"

fun perform_all :: "int list \<Rightarrow> action list \<Rightarrow> 'a cluster \<Rightarrow> 'a cluster option" where
  "perform_all N [] s = Some s"
| "perform_all N (a # as) s = (case perform N a s of None \<Rightarrow> None | Some s' \<Rightarrow> perform_all N as s')"

lemma perform_reach:
  assumes "reach N s" and "perform N a s = Some s'"
  shows "reach N s'"
  using assms(2)
proof (cases a)
  case (Act_Start i now to)
  then have "i \<in> set N" "s' = update i (snd (Start (Inr ()) now to (node_at s i))) s"
    using assms(2) by (auto split: if_splits)
  then show ?thesis using reach.start [OF assms(1)] by (metis prod.collapse)
next
  case (Act_Propose i cmd)
  then have "i \<in> set N" "length cmd < 2 ^ 32" "length (log_entries (node_at s i)) < 2 ^ 32"
    "s' = update i (snd (Propose cmd (node_at s i))) s"
    using assms(2) by (auto split: if_splits)
  then show ?thesis using reach.propose [OF assms(1)] by (metis prod.collapse)
next
  case (Act_Wake_Up i now to)
  then show ?thesis
    using assms reach.wake_up [OF assms(1), of i now to] by (auto split: if_splits prod.splits)
next
  case (Act_Request i c)
  then show ?thesis
    using assms reach.request [OF assms(1), of i c 0 0] by (auto split: if_splits prod.splits)
next
  case (Act_Vote_Reply i c m)
  then obtain p addr rq t where "c = Vote_Call p addr rq t" "(i, c, m) \<in> replies s"
    "s' = update i (snd (HandleVoteReply 0 0 t p m (node_at s i))) s"
    using assms(2) by (auto split: rpc_call.splits if_splits)
  then show ?thesis using reach.vote_reply [OF assms(1)] by (metis prod.collapse)
next
  case (Act_Append_Reply i c m)
  then obtain p addr rq k where "c = Append_Call p addr rq k" "(i, c, m) \<in> replies s"
    "s' = update i (snd (HandleAppendEntriesReply 0 0 p m k (node_at s i))) s"
    using assms(2) by (auto split: rpc_call.splits if_splits)
  then show ?thesis using reach.append_reply [OF assms(1)] by (metis prod.collapse)
qed

lemma perform_all_reach: "reach N s \<Longrightarrow> perform_all N as s = Some s' \<Longrightarrow> reach N s'"
  by (induction as arbitrary: s) (auto intro: perform_reach split: option.splits)

section \<open>Three nodes\<close>

definition three :: "int list" where
  "three = [0, 1, 2]"

definition three_nodes :: "unit cluster" where
  "three_nodes = \<lparr>node_at = (\<lambda>i. RaftNode i (map (\<lambda>p. (p, ''h:1'')) (remove1 i three)) 1 ()),
     calls = {}, replies = {}, ballots = {}, leaders = {},
     logs = {[\<lparr>entry_term = 0, entry_index = 0, command = []\<rparr>]}\<rparr>"

lemma three_nodes_reach: "reach three three_nodes"
  by (rule reach.init) (auto simp: initial_def three_nodes_def three_def in_i32_def comp_def)

definition ask :: "int \<Rightarrow> int \<Rightarrow> int \<Rightarrow> rpc_call" where
  "ask i j t = Vote_Call j ''h:1'' \<lparr>msg_type = REQUEST_VOTE, msg_term = t, sender_id = i, payload = []\<rparr> t"

definition give :: "int \<Rightarrow> int \<Rightarrow> RpcMessage" where
  "give j t = \<lparr>msg_type = REQUEST_VOTE_REPLY, msg_term = t, sender_id = j, payload = yes_payload\<rparr>"

definition push :: "int \<Rightarrow> int \<Rightarrow> int \<Rightarrow> AppendEntriesArgs \<Rightarrow> rpc_call" where
  "push i j t a = append_call t i (j, ''h:1'', a)"

definition accept :: "int \<Rightarrow> int \<Rightarrow> RpcMessage" where
  "accept j t = \<lparr>msg_type = APPEND_ENTRIES_REPLY, msg_term = t, sender_id = j, payload = yes_payload\<rparr>"

text \<open>Node 0 is elected in term 1 with the vote of node 1.\<close>

definition election_run :: "action list" where
  "election_run = [Act_Start 0 0 150, Act_Start 1 0 150, Act_Start 2 0 150, Act_Wake_Up 0 200 150,
     Act_Request 0 (ask 0 1 1), Act_Vote_Reply 0 (ask 0 1 1) (give 1 1)]"

text \<open>It then replicates the command \<open>[7]\<close> to node 1 and commits it.\<close>

definition first_args :: "int \<Rightarrow> int \<Rightarrow> bytes \<Rightarrow> AppendEntriesArgs" where
  "first_args t c cmd = \<lparr>prev_log_index = 0, prev_log_term = 0, leader_commit = c,
     entries = [\<lparr>entry_term = t, entry_index = 1, command = cmd\<rparr>]\<rparr>"

definition commit_run :: "action list" where
  "commit_run = election_run @ [Act_Propose 0 [7], Act_Wake_Up 0 300 150,
     Act_Request 0 (push 0 1 1 (first_args 1 0 [7])),
     Act_Append_Reply 0 (push 0 1 1 (first_args 1 0 [7])) (accept 1 1)]"

text \<open>
  Node 2, whose log is empty, is elected in term 2 with the vote of node 1, and replaces the
  entry on node 1 by its own, \<open>[9]\<close>, which it commits.
\<close>

definition overwrite_run :: "action list" where
  "overwrite_run = commit_run @ [Act_Wake_Up 2 200 150, Act_Wake_Up 2 400 150,
     Act_Request 2 (ask 2 1 2), Act_Vote_Reply 2 (ask 2 1 2) (give 1 2),
     Act_Propose 2 [9], Act_Wake_Up 2 500 150,
     Act_Request 2 (push 2 1 2 (first_args 2 0 [9])),
     Act_Append_Reply 2 (push 2 1 2 (first_args 2 0 [9])) (accept 1 2)]"

text \<open>The clusters after these runs.\<close>

definition elected :: "unit cluster" where
  "elected = the (perform_all three election_run three_nodes)"

definition overwritten :: "unit cluster" where
  "overwritten = the (perform_all three overwrite_run three_nodes)"

end
