(* ===== verification/Raft_Safety.thy ===== *)
theory Raft_Safety
  imports Raft_Trace
begin

text \<open>
  Safety of the cluster: at most one leader in a term, over the whole execution, and the log
  matching property. The invariants are stated over the history variables of a cluster, one
  group for the network, one for votes and leaders and one for logs; each is kept by every
  kind of change that a handler makes to its node.
\<close>

section \<open>Quorums\<close>

text \<open>Two quorums share a member, so two candidates cannot both be elected by single votes.\<close>

locale quorum =
  fixes is_quorum :: "'v set \<Rightarrow> bool"
  assumes quorums_meet: "is_quorum Q \<Longrightarrow> is_quorum Q' \<Longrightarrow> Q \<inter> Q' \<noteq> {}"
begin

lemma elected_once:
  assumes "is_quorum Q" and "\<forall>v \<in> Q. (v, c, t) \<in> votes" and "is_quorum Q'" and "\<forall>v \<in> Q'. (v, c', t) \<in> votes"
    and once: "\<And>v c c' t. (v, c, t) \<in> votes \<Longrightarrow> (v, c', t) \<in> votes \<Longrightarrow> c = c'"
  shows "c = c'"
proof -
  obtain v where "v \<in> Q" "v \<in> Q'" using quorums_meet [OF assms(1,3)] by blast
  then show ?thesis using assms(2,4) once by blast
qed

end

text \<open>The majorities of the members, as the code counts them.\<close>

definition majority :: "int list \<Rightarrow> int set \<Rightarrow> bool" where
  "majority N Q \<longleftrightarrow> Q \<subseteq> set N \<and> card Q > length N div 2"

lemma majorities_meet:
  assumes "distinct N" and "majority N Q" and "majority N Q'"
  shows "Q \<inter> Q' \<noteq> {}"
proof
  assume "Q \<inter> Q' = {}"
  moreover have fin: "finite Q" "finite Q'" using assms(2,3) by (auto simp: majority_def intro: finite_subset)
  ultimately have "card Q + card Q' = card (Q \<union> Q')" by (simp add: card_Un_disjoint)
  also have "\<dots> \<le> card (set N)" using assms(2,3) by (intro card_mono) (auto simp: majority_def)
  also have "\<dots> = length N" using assms(1) by (simp add: distinct_card)
  finally have "card Q + card Q' \<le> length N" .
  moreover have "length N < card Q * 2" "length N < card Q' * 2"
    using assms(2,3) by (simp_all add: majority_def div_less_iff_less_mult)
  ultimately show False by linarith
qed

interpretation cluster_majority: quorum "\<lambda>Q. distinct N \<and> majority N Q" for N
  by unfold_locales (use majorities_meet in blast)

section \<open>Invariants\<close>

definition term_ok :: "int \<Rightarrow> bool" where
  "term_ok t \<longleftrightarrow> 0 \<le> t \<and> t < 2 ^ 31"

definition members_ok :: "int list \<Rightarrow> 'a cluster \<Rightarrow> bool" where
  "members_ok N s \<longleftrightarrow> (\<forall>i \<in> set N. node_id (node_at s i) = i \<and> map fst (peers (node_at s i)) = remove1 i N \<and>
     term_ok (current_term (node_at s i)) \<and> log_entries (node_at s i) \<in> logs s)"

text \<open>Calls carry the vote request of their election, or a suffix of a log that some node has had.\<close>

definition append_from :: "LogEntry list set \<Rightarrow> bytes \<Rightarrow> bool" where
  "append_from W bs \<longleftrightarrow> (\<exists>l \<in> W. \<exists>k < length l. \<exists>c. bs = SerializeAppendEntriesPayload
     \<lparr>prev_log_index = int k, prev_log_term = entry_term (l ! k), leader_commit = c, entries = drop (Suc k) l\<rparr>)"

definition call_ok :: "LogEntry list set \<Rightarrow> rpc_call \<Rightarrow> bool" where
  "call_ok W c \<longleftrightarrow> (case c of
     Vote_Call p addr rq t \<Rightarrow> msg_type rq = REQUEST_VOTE \<and> msg_term rq = t
   | Append_Call p addr rq k \<Rightarrow> msg_type rq = APPEND_ENTRIES \<and> append_from W (payload rq))"

definition calls_ok :: "int list \<Rightarrow> 'a cluster \<Rightarrow> bool" where
  "calls_ok N s \<longleftrightarrow> (\<forall>(i, c) \<in> calls s. i \<in> set N \<and> callee c \<in> set N \<and> sender_id (request c) = i \<and>
     term_ok (msg_term (request c)) \<and> call_ok (logs s) c)"

definition replies_ok :: "'a cluster \<Rightarrow> bool" where
  "replies_ok s \<longleftrightarrow> (\<forall>(i, c, m) \<in> replies s. (i, c) \<in> calls s \<and> term_ok (msg_term m) \<and>
     (\<forall>p addr rq t. c = Vote_Call p addr rq t \<longrightarrow> msg_type m = REQUEST_VOTE_REPLY \<longrightarrow>
        payload m = yes_payload \<longrightarrow> msg_term m = t \<longrightarrow> (p, i, t) \<in> ballots s))"

definition ballots_ok :: "'a cluster \<Rightarrow> bool" where
  "ballots_ok s \<longleftrightarrow>
     (\<forall>(j, c, t) \<in> ballots s. c \<noteq> -1 \<and> (t < current_term (node_at s j) \<or>
        t = current_term (node_at s j) \<and> voted_for (node_at s j) = c)) \<and>
     (\<forall>j c c' t. (j, c, t) \<in> ballots s \<longrightarrow> (j, c', t) \<in> ballots s \<longrightarrow> c = c')"

definition candidates_ok :: "int list \<Rightarrow> 'a cluster \<Rightarrow> bool" where
  "candidates_ok N s \<longleftrightarrow> (\<forall>i \<in> set N. raft_state (node_at s i) \<noteq> FOLLOWER \<longrightarrow>
     0 < current_term (node_at s i) \<and> votes_received (node_at s i) \<subseteq> set N \<and>
     (\<forall>k \<in> votes_received (node_at s i). (k, i, current_term (node_at s i)) \<in> ballots s))"

definition leaders_ok :: "int list \<Rightarrow> 'a cluster \<Rightarrow> bool" where
  "leaders_ok N s \<longleftrightarrow>
     (\<forall>(t, i) \<in> leaders s. i \<in> set N \<and> 0 < t \<and>
        (\<exists>Q. majority N Q \<and> (\<forall>k \<in> Q. (k, i, t) \<in> ballots s)) \<and>
        (t < current_term (node_at s i) \<or> t = current_term (node_at s i) \<and> raft_state (node_at s i) \<noteq> CANDIDATE)) \<and>
     (\<forall>i \<in> set N. raft_state (node_at s i) = LEADER \<longrightarrow> (current_term (node_at s i), i) \<in> leaders s)"

definition agree :: "LogEntry list \<Rightarrow> LogEntry list \<Rightarrow> bool" where
  "agree l l' \<longleftrightarrow> (\<forall>k. k < length l \<longrightarrow> k < length l' \<longrightarrow> entry_term (l ! k) = entry_term (l' ! k) \<longrightarrow>
     take (Suc k) l = take (Suc k) l')"

definition log_ok :: "(int \<times> int) set \<Rightarrow> LogEntry list \<Rightarrow> bool" where
  "log_ok L l \<longleftrightarrow> l \<noteq> [] \<and> length l \<le> 2 ^ 32 \<and> list_all entry_ok l \<and>
     (\<forall>k < length l. entry_index (l ! k) = int k) \<and> entry_term (l ! 0) = 0 \<and>
     (\<forall>k < length l. 0 < k \<longrightarrow> (\<exists>i. (entry_term (l ! k), i) \<in> L))"

text \<open>The last part: a leader has every entry of its term that any node has ever had.\<close>

definition logs_ok :: "int list \<Rightarrow> 'a cluster \<Rightarrow> bool" where
  "logs_ok N s \<longleftrightarrow> (\<forall>l \<in> logs s. log_ok (leaders s) l) \<and> (\<forall>l \<in> logs s. \<forall>l' \<in> logs s. agree l l') \<and>
     (\<forall>i \<in> set N. raft_state (node_at s i) = LEADER \<longrightarrow> (\<forall>l \<in> logs s. \<forall>k < length l.
        entry_term (l ! k) = current_term (node_at s i) \<longrightarrow>
        k < length (log_entries (node_at s i)) \<and> take (Suc k) (log_entries (node_at s i)) = take (Suc k) l))"

definition cluster_ok :: "int list \<Rightarrow> 'a cluster \<Rightarrow> bool" where
  "cluster_ok N s \<longleftrightarrow> distinct N \<and> (\<forall>i \<in> set N. 0 \<le> i) \<and> members_ok N s \<and> calls_ok N s \<and> replies_ok s \<and>
     ballots_ok s \<and> candidates_ok N s \<and> leaders_ok N s \<and> logs_ok N s"

text \<open>
  What a handler does to its node, as far as votes and logs are concerned: nothing that
  matters (\<open>calm\<close>), the start of an election, the counting of a vote, a new entry.
\<close>

definition calm :: "LogEntry list set \<Rightarrow> 'a raft_node \<Rightarrow> 'a raft_node \<Rightarrow> bool" where
  "calm W n n' \<longleftrightarrow> forward n n' \<and> term_ok (current_term n') \<and>
     (raft_state n' = FOLLOWER \<and> log_entries n' \<in> W \<or>
      raft_state n' = raft_state n \<and> votes_received n' = votes_received n \<and> current_term n' = current_term n \<and>
      log_entries n' = log_entries n)"

section \<open>Elementary facts\<close>

lemma update_fields [simp]:
  "node_at (update i n s) = (node_at s)(i := n)" "calls (update i n s) = calls s" "replies (update i n s) = replies s"
  "logs (update i n s) = insert (log_entries n) (logs s)"
  by (simp_all add: update_def)

lemma ballots_update: "ballots s \<subseteq> ballots (update i n s)"
  by (auto simp: update_def)

lemma leaders_update: "leaders s \<subseteq> leaders (update i n s)"
  by (auto simp: update_def)

lemma agree_sym: "agree l l' \<Longrightarrow> agree l' l"
  by (auto simp: agree_def)

lemma agree_refl [simp]: "agree l l"
  by (simp add: agree_def)

lemma log_ok_mono: "log_ok L l \<Longrightarrow> L \<subseteq> L' \<Longrightarrow> log_ok L' l"
  unfolding log_ok_def by blast

text \<open>A log that receives the rest of another one which agrees with it becomes one of the two.\<close>

lemma store_entries_append: "length l = Suc k \<Longrightarrow> store_entries (int k) es l = l @ es"
proof (induction es arbitrary: k l)
  case (Cons e es)
  from Cons.IH [of "l @ [e]" "Suc k"] Cons.prems show ?case by (simp add: add.commute)
qed simp

lemma store_entries_cases:
  assumes "agree l m" and "k < length l" and "k < length m" and "entry_term (l ! k) = entry_term (m ! k)"
  shows "store_entries (int k) (drop (Suc k) m) l = m \<or>
    store_entries (int k) (drop (Suc k) m) l = l \<and> take (length m) l = m"
  using assms(2-4)
proof (induction "length m - k" arbitrary: k)
  case 0
  then show ?case by simp
next
  case (Suc d)
  have eq: "take (Suc k) l = take (Suc k) m" using assms(1) Suc.prems unfolding agree_def by blast
  show ?case
  proof (cases "Suc k < length m")
    case False
    then have "length m = Suc k" using Suc.prems by simp
    then show ?thesis using eq by simp
  next
    case True
    have rest: "drop (Suc k) m = m ! Suc k # drop (Suc (Suc k)) m" using Cons_nth_drop_Suc [OF True] by simp
    show ?thesis
    proof (cases "Suc k < length l")
      case False
      then have "length l = Suc k" using Suc.prems by simp
      then have "store_entries (int k) (drop (Suc k) m) l = l @ drop (Suc k) m" "l = take (Suc k) m"
        using store_entries_append eq by auto
      then show ?thesis by (metis append_take_drop_id)
    next
      case long: True
      show ?thesis
      proof (cases "entry_term (l ! Suc k) = entry_term (m ! Suc k)")
        case True
        then have "store_entries (int k) (drop (Suc k) m) l = store_entries (int (Suc k)) (drop (Suc (Suc k)) m) l"
          using long rest by (simp add: Let_def nat_add_distrib add.commute)
        then show ?thesis using Suc.hyps(1) [of "Suc k"] Suc.hyps(2) \<open>Suc k < length m\<close> long True by simp
      next
        case False
        have "take (Suc k) l @ [m ! Suc k] = take (Suc (Suc k)) m"
          using eq \<open>Suc k < length m\<close> by (simp add: take_Suc_conv_app_nth)
        moreover have "store_entries (int k) (drop (Suc k) m) l =
            store_entries (int (Suc k)) (drop (Suc (Suc k)) m) (take (Suc k) l @ [m ! Suc k])"
          using long rest False by (simp add: Let_def nat_add_distrib add.commute)
        ultimately have "store_entries (int k) (drop (Suc k) m) l = take (Suc (Suc k)) m @ drop (Suc (Suc k)) m"
          using store_entries_append [of "take (Suc (Suc k)) m" "Suc k"] \<open>Suc k < length m\<close> by simp
        then show ?thesis by simp
      qed
    qed
  qed
qed

lemma store_entries_agree:
  assumes "agree l m" and "k < length l" and "k < length m" and "entry_term (l ! k) = entry_term (m ! k)"
  shows "store_entries (int k) (drop (Suc k) m) l \<in> {l, m}"
  using store_entries_cases [OF assms] by auto

section \<open>Invariants that only grow or move forward\<close>

lemma ballots_ok_update:
  assumes "ballots_ok s" and "forward (node_at s i) n"
  shows "ballots_ok (update i n s)"
proof -
  let ?s = "update i n s"
  have now: "c \<noteq> -1 \<and> (t < current_term (node_at ?s j) \<or> t = current_term (node_at ?s j) \<and> voted_for (node_at ?s j) = c)"
    if "(j, c, t) \<in> ballots ?s" for j c t
  proof (cases "(j, c, t) \<in> ballots s")
    case True
    then have "c \<noteq> -1" "t < current_term (node_at s j) \<or> t = current_term (node_at s j) \<and> voted_for (node_at s j) = c"
      using assms(1) by (auto simp: ballots_ok_def)
    then show ?thesis using assms(2) by (auto simp: forward_def)
  next
    case False
    then show ?thesis using that by (auto simp: update_def split: if_splits)
  qed
  have "c = c'" if a: "(j, c, t) \<in> ballots ?s" "(j, c', t) \<in> ballots ?s" for j c c' t
  proof (cases "(j, c, t) \<in> ballots s \<and> (j, c', t) \<in> ballots s")
    case True
    then show ?thesis using assms(1) by (auto simp: ballots_ok_def)
  next
    case False
    then have "j = i" "t = current_term n" using a by (auto simp: update_def split: if_splits)
    then show ?thesis using now [OF a(1)] now [OF a(2)] by simp
  qed
  with now show ?thesis unfolding ballots_ok_def by blast
qed

lemma members_ok_update:
  assumes "members_ok N s" and "i \<in> set N" and "forward (node_at s i) n" and "term_ok (current_term n)"
  shows "members_ok N (update i n s)"
  using assms by (auto simp: members_ok_def forward_def)

lemma calls_ok_mono:
  assumes "calls_ok N s" and "calls s' = calls s" and "logs s \<subseteq> logs s'"
  shows "calls_ok N s'"
proof -
  have "append_from (logs s') bs" if "append_from (logs s) bs" for bs
    using that assms(3) unfolding append_from_def by blast
  then have "call_ok (logs s') c" if "call_ok (logs s) c" for c
    using that by (auto simp: call_ok_def split: rpc_call.splits)
  then show ?thesis using assms(1,2) by (fastforce simp: calls_ok_def)
qed

lemma replies_ok_mono:
  assumes "replies_ok s" and "replies s' = replies s" and "calls s \<subseteq> calls s'" and "ballots s \<subseteq> ballots s'"
  shows "replies_ok s'"
  using assms unfolding replies_ok_def by fast

lemma net_ok_update:
  assumes "cluster_ok N s"
  shows "calls_ok N (update i n s)" and "replies_ok (update i n s)"
  using assms calls_ok_mono [of N s "update i n s"] replies_ok_mono [of s "update i n s"] ballots_update [of s i n]
  by (auto simp: cluster_ok_def)

lemma cluster_okD:
  assumes "cluster_ok N s"
  shows "distinct N" "i \<in> set N \<Longrightarrow> 0 \<le> i" "members_ok N s" "calls_ok N s" "replies_ok s" "ballots_ok s"
    "candidates_ok N s" "leaders_ok N s" "logs_ok N s"
  using assms by (simp_all add: cluster_ok_def)

lemma leaders_okD:
  assumes "leaders_ok N s" and "(t, i) \<in> leaders s"
  shows "i \<in> set N" and "0 < t" and "\<exists>Q. majority N Q \<and> (\<forall>k \<in> Q. (k, i, t) \<in> ballots s)"
    and "t < current_term (node_at s i) \<or> t = current_term (node_at s i) \<and> raft_state (node_at s i) \<noteq> CANDIDATE"
  using assms unfolding leaders_ok_def by auto

lemma candidates_ok_update:
  assumes "candidates_ok N s" and "raft_state n \<noteq> FOLLOWER \<Longrightarrow> 0 < current_term n \<and> votes_received n \<subseteq> set N \<and>
    (\<forall>k \<in> votes_received n. (k, i, current_term n) \<in> ballots (update i n s))"
  shows "candidates_ok N (update i n s)"
  unfolding candidates_ok_def
proof (intro ballI impI)
  fix j assume j: "j \<in> set N" and st: "raft_state (node_at (update i n s) j) \<noteq> FOLLOWER"
  let ?n = "node_at (update i n s) j"
  show "0 < current_term ?n \<and> votes_received ?n \<subseteq> set N \<and>
    (\<forall>k \<in> votes_received ?n. (k, j, current_term ?n) \<in> ballots (update i n s))"
  proof (cases "j = i")
    case True
    then show ?thesis using assms(2) st by simp
  next
    case False
    then have "?n = node_at s j" by simp
    then show ?thesis using assms(1) j st ballots_update [of s i n] unfolding candidates_ok_def by (metis subsetD)
  qed
qed

lemma leaders_ok_update:
  assumes "leaders_ok N s" and "i \<in> set N" and "forward (node_at s i) n"
    and old: "(current_term n, i) \<in> leaders s \<Longrightarrow> raft_state n \<noteq> CANDIDATE"
    and new: "raft_state n = LEADER \<Longrightarrow> 0 < current_term n \<and>
      (\<exists>Q. majority N Q \<and> (\<forall>k \<in> Q. (k, i, current_term n) \<in> ballots (update i n s)))"
  shows "leaders_ok N (update i n s)"
proof -
  let ?s = "update i n s"
  have "j \<in> set N \<and> 0 < t \<and> (\<exists>Q. majority N Q \<and> (\<forall>k \<in> Q. (k, j, t) \<in> ballots ?s)) \<and>
    (t < current_term (node_at ?s j) \<or> t = current_term (node_at ?s j) \<and> raft_state (node_at ?s j) \<noteq> CANDIDATE)"
    if tj: "(t, j) \<in> leaders ?s" for t j
  proof (cases "(t, j) \<in> leaders s")
    case False
    then have "j = i" "t = current_term n" "raft_state n = LEADER"
      using tj by (auto simp: update_def split: if_splits)
    then show ?thesis using new assms(2) by simp
  next
    case True
    note D = leaders_okD [OF assms(1) True]
    obtain Q where "majority N Q" "\<forall>k \<in> Q. (k, j, t) \<in> ballots ?s"
      using D(3) ballots_update [of s i n] by blast
    moreover have "t < current_term (node_at ?s j) \<or>
        t = current_term (node_at ?s j) \<and> raft_state (node_at ?s j) \<noteq> CANDIDATE"
      using D(4) old True assms(3) by (cases "j = i") (auto simp: forward_def)
    ultimately show ?thesis using D(1,2) by blast
  qed
  moreover have "(current_term (node_at ?s j), j) \<in> leaders ?s" if "j \<in> set N" "raft_state (node_at ?s j) = LEADER" for j
    using that assms(1) leaders_update [of s i n] by (cases "j = i") (auto simp: leaders_ok_def update_def)
  ultimately show ?thesis unfolding leaders_ok_def by blast
qed

lemma logs_ok_update:
  assumes "logs_ok N s" and "log_entries n \<in> logs s"
    and "\<And>l k. raft_state n = LEADER \<Longrightarrow> l \<in> logs s \<Longrightarrow> k < length l \<Longrightarrow> entry_term (l ! k) = current_term n \<Longrightarrow>
      k < length (log_entries n) \<and> take (Suc k) (log_entries n) = take (Suc k) l"
  shows "logs_ok N (update i n s)"
proof -
  have logs: "logs (update i n s) = logs s" using assms(2) by auto
  have "log_ok (leaders (update i n s)) l" if "l \<in> logs s" for l
    using assms(1) that log_ok_mono [OF _ leaders_update] unfolding logs_ok_def by blast
  then show ?thesis using assms(1,3) unfolding logs_ok_def logs by auto
qed

text \<open>At most one leader per term, over the whole execution.\<close>

lemma leader_unique:
  assumes "distinct N" and "ballots_ok s" and "majority N Q" and "\<forall>k \<in> Q. (k, i, t) \<in> ballots s"
    and "majority N Q'" and "\<forall>k \<in> Q'. (k, j, t) \<in> ballots s"
  shows "i = j"
proof (rule cluster_majority.elected_once [of N Q i t "ballots s" Q' j])
  show "\<And>v c c' t. (v, c, t) \<in> ballots s \<Longrightarrow> (v, c', t) \<in> ballots s \<Longrightarrow> c = c'"
    using assms(2) unfolding ballots_ok_def by blast
qed (use assms in auto)

lemma leaders_unique:
  assumes "cluster_ok N s" and "(t, i) \<in> leaders s" and "(t, j) \<in> leaders s"
  shows "i = j"
proof -
  obtain Q Q' where "majority N Q" "\<forall>k \<in> Q. (k, i, t) \<in> ballots s" "majority N Q'" "\<forall>k \<in> Q'. (k, j, t) \<in> ballots s"
    using leaders_okD(3) [OF cluster_okD(8) [OF assms(1)]] assms(2,3) by metis
  then show ?thesis using leader_unique cluster_okD(1,6) [OF assms(1)] by blast
qed

section \<open>The four kinds of changes\<close>

text \<open>The invariant after a change, from the parts that depend on the kind of change.\<close>

lemma cluster_okI:
  assumes ok: "cluster_ok N s" and "i \<in> set N" and "forward (node_at s i) n" and "term_ok (current_term n)"
    and "candidates_ok N (update i n s)" and "leaders_ok N (update i n s)" and "logs_ok N (update i n s)"
  shows "cluster_ok N (update i n s)"
  using assms net_ok_update [OF ok] ballots_ok_update [OF cluster_okD(6) [OF ok] assms(3)]
    members_ok_update [OF cluster_okD(3) [OF ok] assms(2-4)]
  by (simp add: cluster_ok_def)

lemma calm_step:
  assumes ok: "cluster_ok N s" and i: "i \<in> set N" and calm: "calm (logs s) (node_at s i) n"
  shows "cluster_ok N (update i n s)"
proof -
  note inv = cluster_okD [OF ok]
  let ?s = "update i n s" and ?n = "node_at s i"
  have fw: "forward ?n n" "term_ok (current_term n)" using calm by (simp_all add: calm_def)
  have own: "log_entries ?n \<in> logs s" using inv(3) i by (simp add: members_ok_def)
  have same: "raft_state n = raft_state ?n" "votes_received n = votes_received ?n" "current_term n = current_term ?n"
    "log_entries n = log_entries ?n" if "raft_state n \<noteq> FOLLOWER"
    using calm that by (auto simp: calm_def)
  have "candidates_ok N ?s"
    using inv(7) i same ballots_update [of s i n]
    by (intro candidates_ok_update [OF inv(7)]) (auto simp: candidates_ok_def)
  moreover have "leaders_ok N ?s"
  proof (rule leaders_ok_update [OF inv(8) i fw(1)])
    assume "(current_term n, i) \<in> leaders s"
    then show "raft_state n \<noteq> CANDIDATE" using leaders_okD(4) [OF inv(8)] same by fastforce
  next
    assume "raft_state n = LEADER"
    then have "(current_term n, i) \<in> leaders s" using inv(8) i same by (simp add: leaders_ok_def)
    then show "0 < current_term n \<and> (\<exists>Q. majority N Q \<and> (\<forall>k \<in> Q. (k, i, current_term n) \<in> ballots ?s))"
      using leaders_okD(2,3) [OF inv(8)] ballots_update [of s i n] by blast
  qed
  moreover have "logs_ok N ?s"
    using inv(9) i own calm same by (intro logs_ok_update) (auto simp: logs_ok_def calm_def)
  ultimately show ?thesis using cluster_okI [OF ok i fw] by blast
qed

text \<open>A node that becomes leader: no log has an entry of its term.\<close>

lemma new_leader_logs:
  assumes ok: "cluster_ok N s" and i: "i \<in> set N" and fw: "forward (node_at s i) n" and "0 < current_term n"
    and fresh: "(current_term n, i) \<notin> leaders s" and Q: "majority N Q" "\<forall>k \<in> Q. (k, i, current_term n) \<in> ballots (update i n s)"
    and l: "l \<in> logs s" "k < length l"
  shows "entry_term (l ! k) \<noteq> current_term n"
proof
  assume e: "entry_term (l ! k) = current_term n"
  have lok: "log_ok (leaders s) l" using cluster_okD(9) [OF ok] l by (simp add: logs_ok_def)
  then have "k \<noteq> 0" using e assms(4) by (cases k) (auto simp: log_ok_def)
  then obtain j where j: "(current_term n, j) \<in> leaders s" using lok l(2) e by (auto simp: log_ok_def)
  obtain Q' where Q': "majority N Q'" "\<forall>k \<in> Q'. (k, j, current_term n) \<in> ballots (update i n s)"
    using leaders_okD(3) [OF cluster_okD(8) [OF ok] j] ballots_update [of s i n] by blast
  have "j = i"
    using leader_unique [OF cluster_okD(1) [OF ok] ballots_ok_update [OF cluster_okD(6) [OF ok] fw] Q' Q] .
  with j fresh show False by simp
qed

text \<open>A node that stands in an election of its current term: it has just begun, or it counts a vote.\<close>

lemma election_step:
  assumes ok: "cluster_ok N s" and i: "i \<in> set N" and fw: "forward (node_at s i) n" "term_ok (current_term n)"
    and log: "log_entries n = log_entries (node_at s i)" and pos: "0 < current_term n"
    and fresh: "(current_term n, i) \<notin> leaders s"
    and votes: "votes_received n \<subseteq> set N" "\<forall>k \<in> votes_received n. (k, i, current_term n) \<in> ballots (update i n s)"
    and won: "raft_state n = LEADER \<Longrightarrow> card (votes_received n) > length N div 2"
  shows "cluster_ok N (update i n s)"
proof -
  note inv = cluster_okD [OF ok]
  have Q: "majority N (votes_received n)" if "raft_state n = LEADER"
    using won [OF that] votes(1) by (simp add: majority_def)
  have "candidates_ok N (update i n s)"
    using pos votes by (intro candidates_ok_update [OF inv(7)]) auto
  moreover have "leaders_ok N (update i n s)"
    using fresh pos votes(2) Q by (intro leaders_ok_update [OF inv(8) i fw(1)]) auto
  moreover have "logs_ok N (update i n s)"
  proof (rule logs_ok_update [OF inv(9)])
    show "log_entries n \<in> logs s" using log inv(3) i by (simp add: members_ok_def)
    fix l k assume "raft_state n = LEADER" "l \<in> logs s" "k < length l" "entry_term (l ! k) = current_term n"
    then show "k < length (log_entries n) \<and> take (Suc k) (log_entries n) = take (Suc k) l"
      using new_leader_logs [OF ok i fw(1) pos fresh Q votes(2)] by blast
  qed
  ultimately show ?thesis using cluster_okI [OF ok i fw] by blast
qed

text \<open>A leader that appends an entry of its term.\<close>

lemma agree_snoc:
  assumes "agree l l'" and "length l < length l' \<Longrightarrow> entry_term (l' ! length l) \<noteq> entry_term e"
  shows "agree (l @ [e]) l'"
  unfolding agree_def
proof (intro allI impI)
  fix k assume k: "k < length (l @ [e])" "k < length l'" "entry_term ((l @ [e]) ! k) = entry_term (l' ! k)"
  have "k < length l" using k assms(2) by (cases "k = length l") (auto simp: nth_append)
  then have "take (Suc k) l = take (Suc k) l'" using assms(1) k by (auto simp: agree_def nth_append)
  then show "take (Suc k) (l @ [e]) = take (Suc k) l'" using \<open>k < length l\<close> by simp
qed

lemma log_ok_snoc:
  assumes "log_ok L l" and "entry_ok e" and "entry_index e = int (length l)" and "length l < 2 ^ 32"
    and "(entry_term e, i) \<in> L"
  shows "log_ok L (l @ [e])"
  using assms by (auto simp: log_ok_def nth_append less_Suc_eq)

lemma propose_step:
  assumes ok: "cluster_ok N s" and i: "i \<in> set N" and leader: "raft_state (node_at s i) = LEADER"
    and e: "entry_ok e" "entry_term e = current_term (node_at s i)" "entry_index e = int (length (log_entries (node_at s i)))"
    and len: "length (log_entries (node_at s i)) < 2 ^ 32"
  shows "cluster_ok N (update i ((node_at s i)\<lparr>log_entries := log_entries (node_at s i) @ [e]\<rparr>) s)"
proof -
  note inv = cluster_okD [OF ok]
  let ?l = "log_entries (node_at s i)" and ?t = "current_term (node_at s i)"
  let ?n = "(node_at s i)\<lparr>log_entries := ?l @ [e]\<rparr>" and ?s = "update i ((node_at s i)\<lparr>log_entries := ?l @ [e]\<rparr>) s"
  have fw: "forward (node_at s i) ?n" "term_ok (current_term ?n)"
    using inv(3) i by (simp_all add: forward_def members_ok_def)
  have own: "?l \<in> logs s" using inv(3) i by (simp add: members_ok_def)
  have led: "(?t, i) \<in> leaders s" using inv(8) i leader by (simp add: leaders_ok_def)
  have has: "k < length ?l \<and> take (Suc k) ?l = take (Suc k) l" if "l \<in> logs s" "k < length l" "entry_term (l ! k) = ?t" for l k
    using inv(9) i leader that by (simp add: logs_ok_def)
  have ag: "agree (?l @ [e]) l" if "l \<in> logs s" for l
    using inv(9) own that has [OF that, of "length ?l"] e(2) by (intro agree_snoc) (auto simp: logs_ok_def)
  have lok: "log_ok (leaders s) (?l @ [e])"
    using inv(9) own e len led by (intro log_ok_snoc [of _ _ _ i]) (auto simp: logs_ok_def)
  have leaders: "leaders ?s = leaders s" using led leader by (auto simp: update_def)
  have others: "k < length (log_entries (node_at s j)) \<and> take (Suc k) (log_entries (node_at s j)) = take (Suc k) (?l @ [e])"
    if j: "j \<in> set N" "j \<noteq> i" "raft_state (node_at s j) = LEADER" "k < length (?l @ [e])"
      "entry_term ((?l @ [e]) ! k) = current_term (node_at s j)" for j k
  proof (cases "k = length ?l")
    case True
    then have "(?t, j) \<in> leaders s" using inv(8) j e(2) by (simp add: leaders_ok_def)
    then show ?thesis using leaders_unique [OF ok led] j(2) by blast
  next
    case False
    then have "k < length ?l" using j(4) by simp
    then show ?thesis using inv(9) own j by (simp add: logs_ok_def nth_append)
  qed
  have "candidates_ok N ?s"
    using inv(7) i leader ballots_update [of s i ?n]
    by (intro candidates_ok_update [OF inv(7)]) (auto simp: candidates_ok_def)
  moreover have "leaders_ok N ?s"
    using leaders_okD(2,3) [OF inv(8) led] leader ballots_update [of s i ?n]
    by (intro leaders_ok_update [OF inv(8) i fw(1)]) auto
  moreover have "logs_ok N ?s"
    unfolding logs_ok_def leaders
  proof (intro conjI ballI impI allI)
    fix l l' assume "l \<in> logs ?s" "l' \<in> logs ?s"
    then show "agree l l'" using inv(9) ag agree_sym [OF ag] by (auto simp: logs_ok_def)
  next
    fix j l k assume a: "j \<in> set N" "raft_state (node_at ?s j) = LEADER" "l \<in> logs ?s" "k < length l"
      "entry_term (l ! k) = current_term (node_at ?s j)"
    have "k < length (log_entries (node_at ?s j)) \<and> take (Suc k) (log_entries (node_at ?s j)) = take (Suc k) l"
    proof (cases "j = i")
      case True
      then show ?thesis using has [of l k] a by (cases "l = ?l @ [e]") auto
    next
      case False
      then show ?thesis using others [of j k] inv(9) a by (cases "l = ?l @ [e]") (auto simp: logs_ok_def)
    qed
    then show "k < length (log_entries (node_at ?s j))"
      and "take (Suc k) (log_entries (node_at ?s j)) = take (Suc k) l" by simp_all
  qed (use inv(9) lok in \<open>auto simp: logs_ok_def\<close>)
  ultimately show ?thesis using cluster_okI [OF ok i fw] by blast
qed

section \<open>Every reachable cluster satisfies the invariant\<close>

lemma plain_calm: "plain n n' \<Longrightarrow> term_ok (current_term n') \<Longrightarrow> log_entries n \<in> W \<Longrightarrow> calm W n n'"
  by (auto simp: plain_def calm_def)

lemma plain_step:
  assumes ok: "cluster_ok N s" and i: "i \<in> set N" and "plain (node_at s i) n"
    and "current_term n = current_term (node_at s i) \<or> term_ok (current_term n)"
  shows "cluster_ok N (update i n s)"
proof (rule calm_step [OF ok i])
  have "term_ok (current_term (node_at s i))" "log_entries (node_at s i) \<in> logs s"
    using cluster_okD(3) [OF ok] i by (auto simp: members_ok_def)
  then show "calm (logs s) (node_at s i) n" using plain_calm assms(3,4) by metis
qed

lemma add_calls:
  assumes "cluster_ok N s" and "\<And>c. c \<in> X \<Longrightarrow> own_call (node_at s i) c" and i: "i \<in> set N"
  shows "cluster_ok N (s\<lparr>calls := calls s \<union> Pair i ` X\<rparr>)"
proof -
  note inv = cluster_okD [OF assms(1)]
  let ?n = "node_at s i"
  have n: "node_id ?n = i" "fst ` set (peers ?n) \<subseteq> set N" "term_ok (current_term ?n)" "log_entries ?n \<in> logs s"
    using inv(3) i set_remove1_subset [of i N] unfolding members_ok_def by (auto simp flip: list.set_map)
  have "callee c \<in> set N \<and> sender_id (request c) = i \<and> term_ok (msg_term (request c)) \<and> call_ok (logs s) c"
    if "c \<in> X" for c
    using assms(2) [OF that] n unfolding own_call_def call_ok_def append_from_def by fastforce
  then have "calls_ok N (s\<lparr>calls := calls s \<union> Pair i ` X\<rparr>)"
    using inv(4) i by (auto simp: calls_ok_def)
  moreover have "replies_ok (s\<lparr>calls := calls s \<union> Pair i ` X\<rparr>)"
    using inv(5) unfolding replies_ok_def by fastforce
  ultimately show ?thesis
    using assms(1) by (simp add: cluster_ok_def members_ok_def ballots_ok_def candidates_ok_def leaders_ok_def logs_ok_def)
qed

lemma add_reply:
  assumes "cluster_ok N s" and "(i, c) \<in> calls s" and "term_ok (msg_term m)"
    and "\<And>p addr rq t. c = Vote_Call p addr rq t \<Longrightarrow> msg_type m = REQUEST_VOTE_REPLY \<Longrightarrow> payload m = yes_payload \<Longrightarrow>
      msg_term m = t \<Longrightarrow> (p, i, t) \<in> ballots s"
  shows "cluster_ok N (s\<lparr>replies := insert (i, c, m) (replies s)\<rparr>)"
proof -
  have "replies_ok (s\<lparr>replies := insert (i, c, m) (replies s)\<rparr>)"
    using cluster_okD(5) [OF assms(1)] assms(2-4) by (auto simp: replies_ok_def)
  then show ?thesis
    using assms(1) by (simp add: cluster_ok_def members_ok_def calls_ok_def ballots_ok_def candidates_ok_def
        leaders_ok_def logs_ok_def)
qed

lemma Start_term: "Start srv now to n = (r, n') \<Longrightarrow> current_term n' = current_term n"
  by (cases srv) (auto simp: Start_def steps ResetElectionDeadlineLocked_def split: if_splits)

lemma initial_ok:
  assumes "initial N s"
  shows "cluster_ok N s"
proof -
  have n: "node_id (node_at s i) = i" "map fst (peers (node_at s i)) = remove1 i N" "current_term (node_at s i) = 0"
    "raft_state (node_at s i) = FOLLOWER" "log_entries (node_at s i) = [\<lparr>entry_term = 0, entry_index = 0, command = []\<rparr>]"
    if "i \<in> set N" for i
    using assms that by (auto simp: initial_def RaftNode_def)
  have "log_ok {} [\<lparr>entry_term = 0, entry_index = 0, command = []\<rparr>]"
    by (simp add: log_ok_def entry_ok_def in_i32_def in_i64_def)
  then show ?thesis
    using assms n
    by (simp add: cluster_ok_def initial_def members_ok_def calls_ok_def replies_ok_def ballots_ok_def candidates_ok_def
        leaders_ok_def logs_ok_def term_ok_def)
qed

lemma member_peers:
  assumes "cluster_ok N s" and "i \<in> set N"
  shows "cluster_size (node_at s i) = length N"
proof -
  have "length (peers (node_at s i)) = length (remove1 i N)"
    using cluster_okD(3) [OF assms(1)] assms(2) unfolding members_ok_def by (metis length_map)
  moreover have "0 < length N" using assms(2) by (cases N) auto
  ultimately show ?thesis using assms(2) by (simp add: cluster_size_def length_remove1)
qed

lemma wake_up_ok:
  assumes ok: "cluster_ok N s" and i: "i \<in> set N" and "current_term (node_at s i) < 2 ^ 31 - 1"
    and "ElectionLoop_round now to (node_at s i) = (r, n)"
  shows "cluster_ok N ((update i n s)\<lparr>calls := calls s \<union> sent i r\<rparr>)"
proof -
  let ?n = "node_at s i"
  note eff = ElectionLoop_round_effect [OF assms(4,3)]
  have m: "node_id ?n = i" "term_ok (current_term ?n)" using cluster_okD(3) [OF ok] i by (auto simp: members_ok_def)
  have "cluster_ok N (update i n s)"
  proof (cases "core n = core ?n")
    case True
    then show ?thesis using plain_step [OF ok i plain_core] core_eqD(3) by blast
  next
    case False
    with eff m(1) have n: "node_id n = i" "peers n = peers ?n" "current_term n = current_term ?n + 1" "voted_for n = i"
      "log_entries n = log_entries ?n" "votes_received n = {i}"
      "raft_state n = (if 1 > cluster_size ?n div 2 then LEADER else CANDIDATE)" by auto
    show ?thesis
    proof (rule election_step [OF ok i])
      show "forward ?n n" using n m by (simp add: forward_def)
      show "term_ok (current_term n)" using n(3) m(2) assms(3) by (simp add: term_ok_def)
      show "(current_term n, i) \<notin> leaders s" using leaders_okD(4) [OF cluster_okD(8) [OF ok]] n(3) by force
      show "\<forall>k \<in> votes_received n. (k, i, current_term n) \<in> ballots (update i n s)"
        using n cluster_okD(2) [OF ok i] by (simp add: update_def)
      show "raft_state n = LEADER \<Longrightarrow> card (votes_received n) > length N div 2"
        using n member_peers [OF ok i] by (simp split: if_splits)
    qed (use n m i in \<open>auto simp: term_ok_def\<close>)
  qed
  moreover obtain X where X: "sent i r = Pair i ` X" "\<forall>c \<in> X. own_call n c"
    using eff by (cases r) (auto simp: sent_def)
  ultimately show ?thesis using add_calls [of N "update i n s" X i] i by simp
qed

lemma request_ok:
  assumes ok: "cluster_ok N s" and c: "(i, c) \<in> calls s"
    and h: "HandleMessage now to (request c) (node_at s (callee c)) = (r, n)"
  shows "cluster_ok N ((update (callee c) n s)\<lparr>replies := replies s \<union> replied i c r\<rparr>)"
proof -
  note inv = cluster_okD [OF ok]
  let ?j = "callee c" let ?n = "node_at s ?j" let ?s = "update ?j n s"
  note eff = HandleMessage_effect [OF h]
  have cok: "i \<in> set N" "?j \<in> set N" "sender_id (request c) = i" "term_ok (msg_term (request c))" "call_ok (logs s) c"
    using inv(4) c by (auto simp: calls_ok_def)
  have m: "term_ok (current_term ?n)" "log_entries ?n \<in> logs s" using inv(3) cok(2) by (auto simp: members_ok_def)
  have t: "term_ok (current_term n)" using eff m(1) cok(4) by auto
  have "calm (logs s) ?n n"
  proof (cases "plain ?n n")
    case True
    then show ?thesis using plain_calm t m(2) by blast
  next
    case False
    with eff obtain a where a: "msg_type (request c) = APPEND_ENTRIES"
      "DeserializeAppendEntriesPayload (payload (request c)) = Some a" "forward ?n n" "raft_state n = FOLLOWER"
      "0 \<le> prev_log_index a" "prev_log_index a < int (length (log_entries ?n))"
      "entry_term (log_entries ?n ! nat (prev_log_index a)) = prev_log_term a"
      "log_entries n = store_entries (prev_log_index a) (entries a) (log_entries ?n)" by auto
    then obtain l k lc where l: "l \<in> logs s" "k < length l" "payload (request c) = SerializeAppendEntriesPayload
        \<lparr>prev_log_index = int k, prev_log_term = entry_term (l ! k), leader_commit = lc, entries = drop (Suc k) l\<rparr>"
      using cok(5) by (auto simp: call_ok_def append_from_def split: rpc_call.splits)
    have lok: "log_ok (leaders s) l" using inv(9) l(1) by (simp add: logs_ok_def)
    then have ent: "entry_ok (l ! k)" "list_all entry_ok (drop (Suc k) l)" "length l \<le> 2 ^ 32"
      using l(2) by (auto simp: log_ok_def list_all_iff dest: in_set_dropD)
    have "a = \<lparr>prev_log_index = int k, prev_log_term = entry_term (l ! k), leader_commit = to_i64 lc,
        entries = drop (Suc k) l\<rparr>"
      using append_entries_reads [of "\<lparr>prev_log_index = int k, prev_log_term = entry_term (l ! k),
          leader_commit = lc, entries = drop (Suc k) l\<rparr>"] a(2) l(2,3) ent
      by (simp add: entry_ok_def in_i64_def)
    then have "log_entries n \<in> {log_entries ?n, l}"
      using store_entries_agree [of "log_entries ?n" l k] inv(9) m(2) l(1,2) a(6-8) by (auto simp: logs_ok_def)
    then show ?thesis using a(3,4) t m(2) l(1) by (auto simp: calm_def)
  qed
  from calm_step [OF ok cok(2) this] have ok': "cluster_ok N ?s" .
  show ?thesis
  proof (cases r)
    case (Inl e)
    have "?s\<lparr>replies := replies s\<rparr> = ?s" by (cases s) (simp add: update_def)
    moreover have "replies s \<union> replied i c r = replies s" using Inl by (simp add: replied_def)
    ultimately show ?thesis using ok' by (simp only:)
  next
    case (Inr x)
    have "(p, i, t) \<in> ballots ?s" if "c = Vote_Call p addr rq t" "msg_type x = REQUEST_VOTE_REPLY"
      "payload x = yes_payload" "msg_term x = t" for p addr rq t
    proof -
      have "msg_term (request c) = t" using cok(5) that(1) by (simp add: call_ok_def)
      then have "voted_for n = i" "current_term n = t" using eff Inr that cok(3) by auto
      then show ?thesis using that(1) inv(2) [OF cok(1)] by (simp add: update_def)
    qed
    then show ?thesis
      using add_reply [OF ok', of i c x] c t eff Inr by (simp add: replied_def)
  qed
qed

lemma vote_reply_ok:
  assumes ok: "cluster_ok N s" and r: "(i, Vote_Call p addr rq t, m) \<in> replies s"
    and h: "HandleVoteReply now to t p m (node_at s i) = (x, n)"
  shows "cluster_ok N (update i n s)"
proof -
  note inv = cluster_okD [OF ok]
  let ?n = "node_at s i"
  have c: "(i, Vote_Call p addr rq t) \<in> calls s" "term_ok (msg_term m)"
    and b: "msg_type m = REQUEST_VOTE_REPLY \<Longrightarrow> payload m = yes_payload \<Longrightarrow> msg_term m = t \<Longrightarrow> (p, i, t) \<in> ballots s"
    using inv(5) r unfolding replies_ok_def by fast+
  have i: "i \<in> set N" "p \<in> set N" using inv(4) c(1) by (auto simp: calls_ok_def)
  show ?thesis
  proof (cases "plain ?n n \<and> current_term n \<in> {current_term ?n, msg_term m}")
    case True
    then show ?thesis using plain_step [OF ok i(1)] c(2) by auto
  next
    case False
    with HandleVoteReply_effect [OF h] have n: "raft_state ?n = CANDIDATE" "current_term ?n = t"
      "msg_type m = REQUEST_VOTE_REPLY" "msg_term m = t" "payload m = yes_payload" "node_id n = node_id ?n"
      "peers n = peers ?n" "current_term n = t" "voted_for n = voted_for ?n" "log_entries n = log_entries ?n"
      "votes_received n = insert p (votes_received ?n)"
      "raft_state n = (if card (votes_received n) > cluster_size ?n div 2 then LEADER else CANDIDATE)"
      by blast+
    have cand: "0 < t" "votes_received ?n \<subseteq> set N" "\<forall>k \<in> votes_received ?n. (k, i, t) \<in> ballots s"
      using inv(7) i(1) n(1,2) by (auto simp: candidates_ok_def)
    show ?thesis
    proof (rule election_step [OF ok i(1)])
      show "forward ?n n" using n by (simp add: forward_def)
      show "(current_term n, i) \<notin> leaders s" using leaders_okD(4) [OF inv(8)] n(1,2,8) by force
      show "\<forall>k \<in> votes_received n. (k, i, current_term n) \<in> ballots (update i n s)"
        using b [OF n(3,5,4)] cand(3) n(8,11) ballots_update [of s i n] by auto
      show "raft_state n = LEADER \<Longrightarrow> card (votes_received n) > length N div 2"
        using n(12) member_peers [OF ok i(1)] by (simp split: if_splits)
      show "term_ok (current_term n)" using n(4,8) c(2) by simp
    qed (use n cand i in auto)
  qed
qed

lemma append_reply_ok:
  assumes ok: "cluster_ok N s" and r: "(i, c, m) \<in> replies s"
    and h: "HandleAppendEntriesReply now to p m k (node_at s i) = (x, n)"
  shows "cluster_ok N (update i n s)"
proof -
  have "(i, c) \<in> calls s" "term_ok (msg_term m)" using cluster_okD(5) [OF ok] r by (auto simp: replies_ok_def)
  then show ?thesis
    using plain_step [OF ok] HandleAppendEntriesReply_effect [OF h] cluster_okD(4) [OF ok] by (fastforce simp: calls_ok_def)
qed

lemma propose_ok:
  assumes ok: "cluster_ok N s" and i: "i \<in> set N" and "length cmd < 2 ^ 32"
    and "length (log_entries (node_at s i)) < 2 ^ 32" and h: "Propose cmd (node_at s i) = (r, n)"
  shows "cluster_ok N (update i n s)"
proof (cases "n = node_at s i")
  case True
  then show ?thesis using plain_step [OF ok i plain_core] by simp
next
  case False
  have "term_ok (current_term (node_at s i))" using cluster_okD(3) [OF ok] i by (simp add: members_ok_def)
  then show ?thesis
    using False Propose_effect [OF h] assms(3,4) propose_step [OF ok i]
    by (auto simp: entry_ok_def in_i32_def in_i64_def term_ok_def)
qed

lemma reach_ok: "reach N s \<Longrightarrow> cluster_ok N s"
proof (induction rule: reach.induct)
  case (start s i srv now to r n)
  then show ?case using plain_step Start_plain
    by (metis Start_term)
next
  case (stop s i r n)
  then show ?case using plain_step [OF stop.IH _ Stop_plain] by (auto simp: Stop_def steps)
next
  case (callback s i cb r n)
  then show ?case using plain_step [OF callback.IH _ SetOnCommitCallback_plain]
    by (auto simp: SetOnCommitCallback_def steps)
qed (use initial_ok propose_ok wake_up_ok request_ok vote_reply_ok append_reply_ok in auto)

section \<open>Properties\<close>

text \<open>
  C22. Election safety: in every reachable state of a cluster, under any loss, delay,
  reordering and repetition of messages, two nodes that are leaders of the same term are the
  same node.
\<close>

theorem election_safety:
  assumes "reach N s" and "i \<in> set N" and "j \<in> set N"
    and "raft_state (node_at s i) = LEADER" and "raft_state (node_at s j) = LEADER"
    and "current_term (node_at s i) = current_term (node_at s j)"
  shows "i = j"
proof (rule leaders_unique [OF reach_ok [OF assms(1)]])
  show "(current_term (node_at s i), i) \<in> leaders s" "(current_term (node_at s i), j) \<in> leaders s"
    using cluster_okD(8) [OF reach_ok [OF assms(1)]] assms(2-6) by (auto simp: leaders_ok_def)
qed

lemma run_reach:
  assumes "perform_all three as three_nodes \<noteq> None"
  shows "reach three (the (perform_all three as three_nodes))"
  using assms perform_all_reach [OF three_nodes_reach] by auto

lemma elected_reach: "reach three elected"
proof -
  have "(perform_all three election_run three_nodes = None) = False" by code_simp
  then show ?thesis unfolding elected_def using run_reach by blast
qed

lemma overwritten_reach: "reach three overwritten"
proof -
  have "(perform_all three overwrite_run three_nodes = None) = False" by code_simp
  then show ?thesis unfolding overwritten_def using run_reach by blast
qed

theorem election_safety_witness:
  "raft_state (node_at elected 0) = LEADER \<and> current_term (node_at elected 0) = 1 \<and>
   current_term (node_at elected 1) = 1 \<and> raft_state (node_at elected 1) \<noteq> LEADER"
proof -
  have l: "raft_state (node_at elected 0) = LEADER" "current_term (node_at elected 0) = 1"
    "current_term (node_at elected 1) = 1"
    unfolding elected_def by code_simp+
  then show ?thesis using election_safety [OF elected_reach, of 1 0] by (auto simp: three_def)
qed

text \<open>
  C23. Log matching: if the logs of two nodes have entries of the same term at the same
  position, the logs are identical up to that position, in every reachable state.
\<close>

theorem log_matching:
  assumes "reach N s" and "i \<in> set N" and "j \<in> set N"
    and "k < length (log_entries (node_at s i))" and "k < length (log_entries (node_at s j))"
    and "entry_term (log_entries (node_at s i) ! k) = entry_term (log_entries (node_at s j) ! k)"
  shows "take (Suc k) (log_entries (node_at s i)) = take (Suc k) (log_entries (node_at s j))"
  using reach_ok [OF assms(1)] assms(2-6) unfolding cluster_ok_def logs_ok_def members_ok_def agree_def by blast

theorem log_matching_witness:
  "entry_term (log_entries (node_at overwritten 1) ! 1) = 2 \<and>
   take 2 (log_entries (node_at overwritten 1)) = take 2 (log_entries (node_at overwritten 2))"
proof -
  have "entry_term (log_entries (node_at overwritten 1) ! 1) = 2" "entry_term (log_entries (node_at overwritten 2) ! 1) = 2"
    "length (log_entries (node_at overwritten 1)) = 2" "length (log_entries (node_at overwritten 2)) = 2"
    unfolding overwritten_def by code_simp+
  with log_matching [OF overwritten_reach, of 1 2 1] show ?thesis by (simp add: three_def numeral_2_eq_2)
qed

text \<open>
  C40. Votes are granted without comparing logs, so a committed entry can be replaced: a
  cluster of three nodes reaches a state in which two nodes have committed different
  commands at the same index.
\<close>

theorem committed_entries_diverge:
  "\<exists>s :: unit cluster. reach three s \<and> commit_index (node_at s 0) = 1 \<and> commit_index (node_at s 2) = 1 \<and>
     command (log_entries (node_at s 0) ! 1) \<noteq> command (log_entries (node_at s 2) ! 1)"
proof (intro exI conjI)
  show "reach three overwritten" by (rule overwritten_reach)
  show "commit_index (node_at overwritten 0) = 1" "commit_index (node_at overwritten 2) = 1"
    unfolding overwritten_def by code_simp+
  have "command (log_entries (node_at overwritten 0) ! 1) = [7]" "command (log_entries (node_at overwritten 2) ! 1) = [9]"
    unfolding overwritten_def by code_simp+
  then show "command (log_entries (node_at overwritten 0) ! 1) \<noteq> command (log_entries (node_at overwritten 2) ! 1)"
    by simp
qed

end
