(* ===== verification/Raft_Stale.thy ===== *)
theory Raft_Stale
  imports Raft_Safety
begin

text \<open>
  Replies that arrive in a later term than the one they answer. \<open>HandleAppendEntriesReply\<close>
  compares the term of a reply with the current term only to step down, so a leader takes the
  reply to a message that it sent as leader of an earlier term for a statement about its
  present log.
\<close>

section \<open>A run with a late reply\<close>

text \<open>What node 0 sends as leader of term 1 after two proposals.\<close>

definition two_args :: AppendEntriesArgs where
  "two_args = \<lparr>prev_log_index = 0, prev_log_term = 0, leader_commit = 0,
     entries = [\<lparr>entry_term = 1, entry_index = 1, command = [7]\<rparr>, \<lparr>entry_term = 1, entry_index = 2, command = [8]\<rparr>]\<rparr>"

text \<open>
  Node 1 stores both entries; its reply is delayed. Node 2 becomes leader of term 2 and
  replaces the entries of node 0 by its own. Node 0 becomes leader of term 3, and then the
  reply arrives.
\<close>

definition late_reply_run :: "action list" where
  "late_reply_run = election_run @ [Act_Propose 0 [7], Act_Propose 0 [8], Act_Wake_Up 0 300 150,
     Act_Request 0 (push 0 1 1 two_args),
     Act_Wake_Up 2 200 150, Act_Wake_Up 2 400 150, Act_Request 2 (ask 2 1 2), Act_Vote_Reply 2 (ask 2 1 2) (give 1 2),
     Act_Propose 2 [9], Act_Wake_Up 2 500 150, Act_Request 2 (push 2 0 2 (first_args 2 0 [9])),
     Act_Wake_Up 0 600 150, Act_Request 0 (ask 0 1 3), Act_Vote_Reply 0 (ask 0 1 3) (give 1 3),
     Act_Append_Reply 0 (push 0 1 1 two_args) (accept 1 1)]"

lemma run_outcome:
  assumes "case perform_all three as three_nodes of None \<Rightarrow> False | Some s \<Rightarrow> P s"
  shows "\<exists>s. reach three s \<and> P s"
proof (cases "perform_all three as three_nodes")
  case (Some s)
  then show ?thesis using assms perform_all_reach [OF three_nodes_reach Some] by auto
qed (use assms in simp)

text \<open>
  C38. A late reply can make a leader read outside its log: a cluster reaches a state in which
  the next heartbeat of the leader is undefined behaviour, because \<open>next_index\<close> for a peer is
  beyond the end of the log.
\<close>

theorem late_reply_undefined:
  "\<exists>s :: unit cluster. reach three s \<and> raft_state (node_at s 0) = LEADER \<and>
     fst (ElectionLoop_round 700 150 (node_at s 0)) = Inl Undefined"
  by (rule run_outcome [where as = late_reply_run]) code_simp


end
