(* ===== verification/Raft_Address.thy ===== *)
theory Raft_Address
  imports Raft_Node
begin

text \<open>
  Peer addresses of the form \<open>host:port\<close> (\<open>ParsePeerAddress\<close> of \<open>src/src/raft/raft_node.cpp\<close>).
\<close>

section \<open>Writing a port\<close>

fun decimal :: "nat \<Rightarrow> string" where
  "decimal n = (if n < 10 then [char_of (48 + n)] else decimal (n div 10) @ [char_of (48 + n mod 10)])"

declare decimal.simps [simp del]

section \<open>Splitting at the last colon\<close>

lemma ParsePeerAddress_split:
  assumes "CHR '':'' \<notin> set s"
  shows "ParsePeerAddress (h @ CHR '':'' # s) =
    (if h = [] \<or> s = [] then None
     else (case stoi s of None \<Rightarrow> None | Some port \<Rightarrow> if port \<le> 0 \<or> port > 65535 then None else Some (h, port)))"
proof -
  have "takeWhile (\<lambda>c. c \<noteq> CHR '':'') (rev (h @ CHR '':'' # s)) = rev s"
    using assms by (subst rev_append, simp, subst takeWhile_append2) auto
  then have "length (h @ CHR '':'' # s) - 1 - length (takeWhile (\<lambda>c. c \<noteq> CHR '':'') (rev (h @ CHR '':'' # s))) = length h"
    by simp
  then show ?thesis unfolding ParsePeerAddress_def Let_def by (auto split: option.splits)
qed

lemma last_colon:
  assumes "CHR '':'' \<in> set addr"
  obtains h s where "addr = h @ CHR '':'' # s" and "CHR '':'' \<notin> set s"
  using split_list_last [OF assms] by blast

lemma ParsePeerAddress_Some:
  assumes "ParsePeerAddress addr = Some (h, port)"
  shows "1 \<le> port \<and> port \<le> 65535 \<and> h \<noteq> [] \<and> (\<exists>s. addr = h @ CHR '':'' # s \<and> CHR '':'' \<notin> set s \<and> stoi s = Some port)"
proof -
  have "CHR '':'' \<in> set addr" using assms by (auto simp: ParsePeerAddress_def split: if_splits)
  then obtain h' s where "addr = h' @ CHR '':'' # s" "CHR '':'' \<notin> set s" by (rule last_colon)
  with assms show ?thesis by (auto simp: ParsePeerAddress_split split: if_splits option.splits)
qed

section \<open>Reading a port\<close>

lemma digit_char:
  assumes "d < 10"
  shows "is_digit (char_of (48 + d)) \<and> digit_of (char_of (48 + d)) = int d \<and>
    \<not> is_space (char_of (48 + d)) \<and> (char_of (48 + d) :: char) \<notin> {CHR ''-'', CHR ''+''} \<and> CHR '':'' \<noteq> char_of (48 + d)"
proof -
  have "d \<in> {0, 1, 2, 3, 4, 5, 6, 7, 8, 9}" using assms by auto
  then show ?thesis by (elim insertE emptyE; hypsubst; code_simp)
qed

lemma decimal_digits: "decimal n \<noteq> [] \<and> (\<forall>c \<in> set (decimal n). is_digit c) \<and> digits_value (decimal n) = int n \<and>
    \<not> is_space (hd (decimal n)) \<and> hd (decimal n) \<notin> {CHR ''-'', CHR ''+''} \<and> CHR '':'' \<notin> set (decimal n)"
proof (induction n rule: decimal.induct)
  case (1 n)
  show ?case
  proof (cases "n < 10")
    case True
    then show ?thesis using digit_char [of n] by (subst (1 2 3 4 5 6) decimal.simps) (simp add: digits_value_def)
  next
    case False
    let ?c = "char_of (48 + n mod 10) :: char"
    have eq: "decimal n = decimal (n div 10) @ [?c]" using False by (subst decimal.simps) simp
    have "digits_value (decimal n) = 10 * digits_value (decimal (n div 10)) + digit_of ?c"
      by (simp add: eq digits_value_def)
    moreover have "10 * int (n div 10) + int (n mod 10) = int n"
      by (metis mult_div_mod_eq of_nat_add of_nat_mult of_nat_numeral)
    ultimately show ?thesis
      using 1 [OF False] digit_char [of "n mod 10"] unfolding eq by auto
  qed
qed

lemma stoi_decimal:
  assumes "int n < 2 ^ 31"
  shows "stoi (decimal n) = Some (int n)"
proof -
  note d = decimal_digits [of n]
  have "dropWhile is_space (decimal n) = decimal n" using d by (simp add: dropWhile_eq_self_iff)
  moreover have "takeWhile is_digit (decimal n) = decimal n" using d by (subst takeWhile_eq_all_conv) simp
  ultimately show ?thesis using d assms by (simp add: stoi_def in_i32_def del: takeWhile_eq_all_conv)
qed

text \<open>
  C32. What \<open>ParsePeerAddress\<close> accepts: the port is between 1 and 65535 and the host is the
  non-empty text before the last colon; and every such host and port, written with the port in
  decimal, is read back.
\<close>

theorem peer_address_bounds:
  "(ParsePeerAddress addr = Some (h, port) \<longrightarrow>
     1 \<le> port \<and> port \<le> 65535 \<and> h \<noteq> [] \<and> (\<exists>s. addr = h @ CHR '':'' # s \<and> CHR '':'' \<notin> set s)) \<and>
   (1 \<le> p \<and> p \<le> 65535 \<and> g \<noteq> [] \<longrightarrow> ParsePeerAddress (g @ CHR '':'' # decimal p) = Some (g, int p))"
proof (intro conjI impI)
  assume "ParsePeerAddress addr = Some (h, port)"
  from ParsePeerAddress_Some [OF this] show "1 \<le> port" "port \<le> 65535" "h \<noteq> []"
    "\<exists>s. addr = h @ CHR '':'' # s \<and> CHR '':'' \<notin> set s" by auto
next
  assume "1 \<le> p \<and> p \<le> 65535 \<and> g \<noteq> []"
  then show "ParsePeerAddress (g @ CHR '':'' # decimal p) = Some (g, int p)"
    using decimal_digits [of p] stoi_decimal [of p] by (simp add: ParsePeerAddress_split)
qed

theorem peer_address_bounds_witness:
  "ParsePeerAddress (''::1'' @ CHR '':'' # decimal 65535) = Some (''::1'', 65535) \<and> 65535 \<le> (65535 :: int)"
  using peer_address_bounds [of "''h:1''" "''h''" 1 65535 "''::1''"] by simp

end
