(* ===== verification/State_Machine.thy ===== *)
theory State_Machine
  imports Log_Entry Table
begin

text \<open>
  The state machine that executes replicated commands on a query engine
  (\<open>src/src/raft/state_machine.{h,cpp}\<close>). The engine is a pointer that may be null.
\<close>

section \<open>State and operations\<close>

record state_machine =
  engine :: "table option"
  last_applied_index :: int

definition RaftStateMachine :: "table option \<Rightarrow> state_machine" where
  "RaftStateMachine e = \<lparr>engine = e, last_applied_index = 0\<rparr>"

text \<open>A call on the engine whose result is ignored; nothing happens without an engine.\<close>

definition on_engine :: "(table, 'a) comp \<Rightarrow> (state_machine, unit) comp" where
  "on_engine m s = (case engine s of
     None \<Rightarrow> (Inr (), s)
   | Some e \<Rightarrow> (case m e of
       (Inl x, e') \<Rightarrow> (Inl x, s\<lparr>engine := Some e'\<rparr>)
     | (Inr _, e') \<Rightarrow> (Inr (), s\<lparr>engine := Some e'\<rparr>)))"

text \<open>The \<open>switch\<close> over the type of a command.\<close>

definition execute :: "RaftCommand \<Rightarrow> (table, unit) comp" where
  "execute c = (case cmd_type c of
     CMD_INSERT \<Rightarrow> thenM (QueryEngine_Insert (cmd_id c) (cmd_name c) (cmd_value c)) (returnM ())
   | CMD_UPDATE_VALUE \<Rightarrow> thenM (QueryEngine_UpdateValue (cmd_id c) (cmd_value c)) (returnM ())
   | CMD_DELETE \<Rightarrow> thenM (QueryEngine_DeleteById (cmd_id c)) (returnM ())
   | CMD_OTHER _ \<Rightarrow> returnM ())"

definition Apply :: "bytes \<Rightarrow> int \<Rightarrow> (state_machine, unit) comp" where
  "Apply serialized_command log_index =
     bindM (getM last_applied_index) (\<lambda>last.
     if log_index \<le> last then returnM ()
     else
       thenM (on_engine (execute (Deserialize serialized_command))) (
       modifyM (\<lambda>s. s\<lparr>last_applied_index := log_index\<rparr>)))"

definition GetLastAppliedIndex :: "(state_machine, int) comp" where
  "GetLastAppliedIndex = getM last_applied_index"

text \<open>Executing a list of serialized commands on a table.\<close>

definition replay :: "bytes list \<Rightarrow> (table, unit) comp" where
  "replay cs = foreachM cs (\<lambda>c. execute (Deserialize c))"

section \<open>Correctness\<close>

lemma Apply_new:
  assumes "last_applied_index s < i"
  shows "Apply c i s = (case on_engine (execute (Deserialize c)) s of
    (Inl x, s') \<Rightarrow> (Inl x, s') | (Inr _, s') \<Rightarrow> (Inr (), s'\<lparr>last_applied_index := i\<rparr>))"
  using assms by (auto simp: Apply_def steps thenM_def bindM_def modifyM_def split: prod.splits sum.splits)

lemma Apply_engine:
  assumes "last_applied_index s < i" and "engine s = Some e" and "execute (Deserialize c) e = (Inr (), e')"
  shows "Apply c i s = (Inr (), \<lparr>engine = Some e', last_applied_index = i\<rparr>)"
  using assms by (simp add: Apply_new on_engine_def)

text \<open>
  C31. Every log index takes effect at most once: after \<open>Apply\<close> has returned for an index, a
  further \<open>Apply\<close> for that index or an earlier one, with whatever command, changes nothing; a
  call that throws leaves the index unapplied.
\<close>

theorem apply_at_most_once:
  assumes "Apply c i s = (r, s')"
  shows "case r of
    Inr _ \<Rightarrow> i \<le> last_applied_index s' \<and> (j \<le> i \<longrightarrow> Apply c' j s' = (Inr (), s'))
  | Inl _ \<Rightarrow> last_applied_index s' = last_applied_index s \<and> last_applied_index s < i"
  using assms
  by (auto simp: Apply_def steps thenM_def bindM_def modifyM_def on_engine_def
      split: if_splits sum.splits prod.splits option.splits)

theorem apply_at_most_once_witness:
  "Apply [0] 3 \<lparr>engine = None, last_applied_index = 5\<rparr> = (Inr (), \<lparr>engine = None, last_applied_index = 5\<rparr>)"
proof -
  have "Apply [] 5 (RaftStateMachine None) = (Inr (), \<lparr>engine = None, last_applied_index = 5\<rparr>)"
    by (simp add: Apply_def steps on_engine_def RaftStateMachine_def thenM_def bindM_def)
  from apply_at_most_once [OF this, of 3 "[0]"] show ?thesis by simp
qed

lemma replay_Cons: "replay (c # cs) = thenM (execute (Deserialize c)) (replay cs)"
  by (simp add: replay_def)

end
