(* ===== verification/Raft_Commit.thy ===== *)
theory Raft_Commit
  imports Raft_Cluster
begin

text \<open>
  How a node advances its commit index and hands committed entries to the state machine
  (\<open>AdvanceCommitIndexLocked\<close> and \<open>ApplyCommittedEntriesLocked\<close> of
  \<open>src/src/raft/raft_node.cpp\<close>), compared with reference definitions that do not loop over
  the node.
\<close>

section \<open>Reference definitions\<close>

text \<open>
  Handing a list of commands to the callback, the first with index \<open>i + 1\<close>: the outcome, the
  index of the last command that was handed over, and the state of the application.
\<close>

fun deliver :: "(bytes \<Rightarrow> int \<Rightarrow> ('a, unit) comp) \<Rightarrow> bytes list \<Rightarrow> int \<Rightarrow> 'a \<Rightarrow> unit res \<times> int \<times> 'a" where
  "deliver cb [] i a = (Inr (), i, a)"
| "deliver cb (c # cs) i a = (case cb c (i + 1) a of
     (Inl e, a') \<Rightarrow> (Inl e, i + 1, a')
   | (Inr _, a') \<Rightarrow> deliver cb cs (i + 1) a')"

text \<open>The commands at the indices after \<open>i\<close> up to \<open>j\<close>.\<close>

definition commands_between :: "LogEntry list \<Rightarrow> int \<Rightarrow> int \<Rightarrow> bytes list" where
  "commands_between l i j = map command (drop (nat (i + 1)) (take (nat (j + 1)) l))"


text \<open>A leader of three nodes in term 1 that has two entries, both stored by peer 1.\<close>

definition sample_leader :: "(bytes \<times> int) list raft_node" where
  "sample_leader = (RaftNode 0 [(1, ''h:1''), (2, ''h:2'')] 1 [])
     \<lparr>current_term := 1, raft_state := LEADER, running := True,
      log_entries := [\<lparr>entry_term = 0, entry_index = 0, command = []\<rparr>,
        \<lparr>entry_term = 1, entry_index = 1, command = [7]\<rparr>, \<lparr>entry_term = 1, entry_index = 2, command = [8]\<rparr>],
      match_index := (\<lambda>p. if p = 1 then 2 else 0),
      on_commit := Some (\<lambda>c i. modifyM (\<lambda>a. a @ [(c, i)]))\<rparr>"

section \<open>Applying\<close>

lemma commands_between_Cons:
  assumes "0 \<le> i" and "i < j" and "j < int (length l)"
  shows "commands_between l i j = command (l ! nat (i + 1)) # commands_between l (i + 1) j"
proof -
  have "nat (i + 1) < length (take (nat (j + 1)) l)" using assms by auto
  from Cons_nth_drop_Suc [OF this, symmetric] assms show ?thesis
    by (simp add: commands_between_def Suc_nat_eq_nat_zadd1 add.commute)
qed

lemma apply_loop_deliver:
  assumes "on_commit n = Some cb" and "k = nat (commit_index n - last_applied n)"
    and "0 \<le> last_applied n" and "last_applied n \<le> commit_index n" and "commit_index n < int (length (log_entries n))"
  shows "apply_loop k n =
    (case deliver cb (commands_between (log_entries n) (last_applied n) (commit_index n)) (last_applied n) (app n) of
       (r, i, a) \<Rightarrow> (r, n\<lparr>last_applied := i, app := a\<rparr>))"
  using assms
proof (induction k arbitrary: n)
  case 0
  then show ?case by (simp add: run commands_between_def)
next
  case (Suc k)
  let ?i = "last_applied n + 1"
  let ?n1 = "n\<lparr>last_applied := ?i\<rparr>"
  have inside: "log_at ?i ?n1 = (Inr (log_entries n ! nat ?i), ?n1)"
    using Suc.prems by (simp add: log_at_def run)
  obtain r a where cb: "cb (command (log_entries n ! nat ?i)) ?i (app n) = (r, a)" by fastforce
  have callback: "run_callback (command (log_entries n ! nat ?i)) ?i ?n1 = (r, ?n1\<lparr>app := a\<rparr>)"
    using Suc.prems(1) cb by (simp add: run_callback_def)
  have split: "commands_between (log_entries n) (last_applied n) (commit_index n) =
      command (log_entries n ! nat ?i) # commands_between (log_entries n) ?i (commit_index n)"
    using Suc.prems by (intro commands_between_Cons) auto
  show ?case
  proof (cases r)
    case (Inl e)
    then show ?thesis using Suc.prems(1) cb inside callback by (simp add: split run steps)
  next
    case (Inr u)
    have "apply_loop k (?n1\<lparr>app := a\<rparr>) =
        (case deliver cb (commands_between (log_entries n) ?i (commit_index n)) ?i a of
          (r, i, a) \<Rightarrow> (r, n\<lparr>last_applied := i, app := a\<rparr>))"
      using Suc.prems by (subst Suc.IH) (auto split: prod.splits)
    with Inr show ?thesis using Suc.prems(1) cb inside callback by (simp add: split run steps)
  qed
qed

text \<open>
  C24. \<open>ApplyCommittedEntriesLocked\<close> hands over exactly the committed commands that were not
  handed over before, each once and in log order, and stops at the first one whose callback
  throws; nothing of the node changes but the index of the last applied entry and the
  application's state.
\<close>

theorem apply_in_order:
  assumes "on_commit n = Some cb" and "0 \<le> last_applied n" and "last_applied n \<le> commit_index n"
    and "commit_index n < int (length (log_entries n))"
  shows "ApplyCommittedEntriesLocked n =
    (case deliver cb (commands_between (log_entries n) (last_applied n) (commit_index n)) (last_applied n) (app n) of
       (r, i, a) \<Rightarrow> (r, n\<lparr>last_applied := i, app := a\<rparr>))"
  using apply_loop_deliver [OF assms(1) refl assms(2-4)]
  by (simp add: ApplyCommittedEntriesLocked_def steps)

theorem apply_in_order_witness:
  "ApplyCommittedEntriesLocked (sample_leader\<lparr>commit_index := 2\<rparr>) =
    (Inr (), sample_leader\<lparr>commit_index := 2, last_applied := 2, app := [([7], 1), ([8], 2)]\<rparr>)"
  by (subst apply_in_order [where cb = "\<lambda>c i. modifyM (\<lambda>a. a @ [(c, i)])"])
    (simp_all add: sample_leader_def RaftNode_def commands_between_def modifyM_def numeral_3_eq_3)

section \<open>Advancing\<close>







end
