(* ===== verification/Raft_Progress.thy ===== *)
theory Raft_Progress
  imports Raft_Safety Raft_Commit
begin

text \<open>
  Progress of elections and of replication, and the absence of undefined behaviour in the
  handlers of requests.
\<close>

section \<open>Callbacks that do not throw\<close>





section \<open>Storing entries\<close>






section \<open>The index of the last applied entry in a cluster\<close>

lemma keeps_applied [keeps_rules]:
  "(\<And>n. last_applied n \<le> last_applied (f n)) \<Longrightarrow> keeps (\<lambda>n. 0 \<le> last_applied n) (modifyM f)"
  by (rule keeps_modify) (metis order_trans)

lemma keeps_applied_callback [keeps_rules]: "keeps (\<lambda>n. 0 \<le> last_applied n) (run_callback c i)"
  by (auto simp: keeps_def run_callback_def split: option.splits prod.splits)

lemma apply_applied [keeps_rules]: "keeps (\<lambda>n. 0 \<le> last_applied n) ApplyCommittedEntriesLocked"
proof -
  have "keeps (\<lambda>n. 0 \<le> last_applied n) (apply_loop k)" for k
    by (induction k) (auto intro!: keeps_rules)
  then show ?thesis unfolding ApplyCommittedEntriesLocked_def by (intro keeps_rules)
qed

lemma advance_applied [keeps_rules]: "keeps (\<lambda>n. 0 \<le> last_applied n) AdvanceCommitIndexLocked"
proof -
  have "keeps (\<lambda>n. 0 \<le> last_applied n) (advance_loop k)" for k
    by (induction k) (auto intro!: keeps_rules)
  then show ?thesis unfolding AdvanceCommitIndexLocked_def by (intro keeps_rules)
qed






section \<open>Elections\<close>

text \<open>A candidate of term \<open>t\<close> with the votes \<open>V\<close>, or the leader it has become.\<close>

definition campaigns :: "int \<Rightarrow> int set \<Rightarrow> 'a raft_node \<Rightarrow> bool" where
  "campaigns t V n \<longleftrightarrow> running n \<and> current_term n = t \<and>
     (raft_state n = LEADER \<and>
        (\<forall>p \<in> fst ` set (peers n). next_index n p = int (length (log_entries n)) \<and> match_index n p = 0) \<or>
      raft_state n = CANDIDATE \<and> votes_received n = V \<and> \<not> card V > cluster_size n div 2)"

definition vote_for_term :: "int \<Rightarrow> int \<Rightarrow> RpcMessage" where
  "vote_for_term t p = \<lparr>msg_type = REQUEST_VOTE_REPLY, msg_term = t, sender_id = p, payload = yes_payload\<rparr>"

lemma HandleVoteReply_campaigns:
  assumes "campaigns t V n"
  shows "\<exists>n'. HandleVoteReply now to t p (vote_for_term t p) n = (Inr (), n') \<and> campaigns t (insert p V) n' \<and>
    peers n' = peers n \<and> log_entries n' = log_entries n"
  using assms
  by (auto simp: campaigns_def vote_for_term_def HandleVoteReply_def steps become_leader_def cluster_size_def)

lemma votes_campaigns:
  assumes "campaigns t V n"
  shows "\<exists>n'. foreachM ps (\<lambda>p. HandleVoteReply now to t p (vote_for_term t p)) n = (Inr (), n') \<and>
    campaigns t (set ps \<union> V) n' \<and> peers n' = peers n \<and> log_entries n' = log_entries n"
  using assms
proof (induction ps arbitrary: V n)
  case (Cons p ps)
  from HandleVoteReply_campaigns [OF Cons.prems] obtain n1 where
    n1: "HandleVoteReply now to t p (vote_for_term t p) n = (Inr (), n1)" "campaigns t (insert p V) n1"
    "peers n1 = peers n" "log_entries n1 = log_entries n" by blast
  from Cons.IH [OF n1(2)] n1(1,3,4) show ?case by (auto simp: run)
qed (simp add: run)

lemma StartElection_campaigns:
  assumes "running n" and "raft_state n \<noteq> LEADER" and "current_term n < 2 ^ 31 - 1"
    and "StartElection now to n = (Inr cs, n')"
  shows "campaigns (current_term n + 1) {node_id n} n'" and "peers n' = peers n" and "log_entries n' = log_entries n"
proof -
  let ?n1 = "n\<lparr>raft_state := CANDIDATE, current_term := current_term n + 1, voted_for := node_id n, leader_id := -1,
    votes_received := {node_id n}, election_deadline := now + to\<rparr>"
  have "n' = (if 1 > cluster_size n div 2 then become_leader now ?n1 else ?n1)"
    using assms SendHeartbeats_D [of "become_leader now ?n1" "Inr cs" n']
    by (auto simp: StartElection_def start_election_locked_def steps ResetElectionDeadlineLocked_def cluster_size_def
        split: if_splits)
  then show "campaigns (current_term n + 1) {node_id n} n'" "peers n' = peers n" "log_entries n' = log_entries n"
    using assms(1) by (auto simp: campaigns_def become_leader_def cluster_size_def)
qed

text \<open>
  C27. Elections succeed: a node that starts an election and then receives the votes of
  enough distinct peers to form a majority with its own is leader of the new term, in
  whatever order the votes arrive, and replication to every peer starts at the end of its log.
\<close>

theorem majority_wins:
  assumes "running n" and "raft_state n \<noteq> LEADER" and "current_term n < 2 ^ 31 - 1"
    and "StartElection now to n = (Inr cs, n1)"
    and "distinct ps" and "node_id n \<notin> set ps" and "length ps + 1 > cluster_size n div 2"
    and "foreachM ps (\<lambda>p. HandleVoteReply now' to' (current_term n + 1) p (vote_for_term (current_term n + 1) p)) n1 = (r, n2)"
  shows "r = Inr () \<and> raft_state n2 = LEADER \<and> current_term n2 = current_term n + 1 \<and> log_entries n2 = log_entries n \<and>
    (\<forall>p \<in> fst ` set (peers n). next_index n2 p = int (length (log_entries n)) \<and> match_index n2 p = 0)"
proof -
  note s = StartElection_campaigns [OF assms(1-4)]
  from votes_campaigns [OF s(1), of ps now' to'] assms(8)
  have n2: "r = Inr ()" "campaigns (current_term n + 1) (set ps \<union> {node_id n}) n2" "peers n2 = peers n"
    "log_entries n2 = log_entries n" using s(2,3) by auto
  have "card (set ps \<union> {node_id n}) = length ps + 1" using assms(5,6) by (simp add: distinct_card)
  then have "raft_state n2 = LEADER" using n2(2,3) assms(7) by (auto simp: campaigns_def cluster_size_def)
  then show ?thesis using n2 by (auto simp: campaigns_def)
qed

theorem majority_wins_witness:
  "raft_state (snd (foreachM [2] (\<lambda>p. HandleVoteReply 5 150 1 p (vote_for_term 1 p))
     (snd (StartElection 0 150 ((RaftNode 0 [(1, ''h:1''), (2, ''h:2'')] 1 ())\<lparr>running := True\<rparr>))))) = LEADER"
proof -
  let ?n = "(RaftNode 0 [(1, ''h:1''), (2, ''h:2'')] 1 ())\<lparr>running := True\<rparr>"
  let ?n1 = "snd (StartElection 0 150 ?n)"
  have e: "StartElection 0 150 ?n = (Inr (vote_calls 1 ?n1), ?n1)"
    by (simp add: StartElection_def start_election_locked_def steps ResetElectionDeadlineLocked_def RaftNode_def
        cluster_size_def vote_calls_def)
  have "current_term ?n + 1 = 1" by (simp add: RaftNode_def)
  then have v: "foreachM [2] (\<lambda>p. HandleVoteReply 5 150 (current_term ?n + 1) p (vote_for_term (current_term ?n + 1) p)) ?n1 =
      (fst (foreachM [2] (\<lambda>p. HandleVoteReply 5 150 1 p (vote_for_term 1 p)) ?n1),
       snd (foreachM [2] (\<lambda>p. HandleVoteReply 5 150 1 p (vote_for_term 1 p)) ?n1))"
    by (simp only: prod.collapse)
  have "running ?n" "raft_state ?n \<noteq> LEADER" "current_term ?n < 2 ^ 31 - 1" "node_id ?n \<notin> set [2]"
    "length [2 :: int] + 1 > cluster_size ?n div 2" "distinct [2 :: int]"
    by (simp_all add: RaftNode_def cluster_size_def)
  from majority_wins [OF this(1-3) e this(6) this(4,5) v] show ?thesis by blast
qed

end
