(* ===== verification/Raft_Replication.thy ===== *)
theory Raft_Replication
  imports Raft_Progress
begin

text \<open>
  Replication of the leader's log to one follower: a round is a heartbeat of the leader, its
  handling by the follower and the handling of the reply by the leader. Rounds repeat until
  the follower has the whole log.
\<close>

section \<open>Rounds\<close>









section \<open>The leader's side\<close>











section \<open>The follower's side and one round\<close>







end
