(* ===== verification/Raft_Server.thy ===== *)
theory Raft_Server
  imports State_Machine Raft_Replication
begin

text \<open>
  The replicated database server (\<open>src/src/raft/raft_server.{h,cpp}\<close>): a Raft node whose commit
  callback applies commands to a state machine over a query engine. The application state of
  the node is the state machine, which holds the engine that the server's reads use.
\<close>

section \<open>Operations\<close>

type_synonym raft_server = "state_machine raft_node"

definition RaftServer :: "int \<Rightarrow> (int \<times> string) list \<Rightarrow> int \<Rightarrow> table option \<Rightarrow> raft_server" where
  "RaftServer i ps port query_engine =
     snd (SetOnCommitCallback (Some Apply) (RaftNode i ps port (RaftStateMachine query_engine)))"

definition Server_Start :: "unit res \<Rightarrow> int \<Rightarrow> int \<Rightarrow> (raft_server, unit) comp" where
  "Server_Start server now timeout = Start server now timeout"

definition Server_Stop :: "(raft_server, unit) comp" where
  "Server_Stop = Stop"

definition SubmitWrite :: "RaftCommand \<Rightarrow> (raft_server, bool) comp" where
  "SubmitWrite cmd =
     bindM GetState (\<lambda>st.
     if st \<noteq> LEADER then returnM False
     else Propose (Serialize cmd))"

text \<open>Reads use the engine directly; with a null engine they are undefined.\<close>

definition on_query_engine :: "(table, 'a) comp \<Rightarrow> (raft_server, 'a) comp" where
  "on_query_engine m n = (case engine (app n) of
     None \<Rightarrow> (Inl Undefined, n)
   | Some e \<Rightarrow> (case m e of (r, e') \<Rightarrow> (r, n\<lparr>app := (app n)\<lparr>engine := Some e'\<rparr>\<rparr>)))"

definition Server_SelectById :: "int \<Rightarrow> (raft_server, Record option) comp" where
  "Server_SelectById rid = on_query_engine (QueryEngine_SelectById rid)"

definition Server_SelectWhere :: "(Record \<Rightarrow> bool) \<Rightarrow> (raft_server, Record list) comp" where
  "Server_SelectWhere p = on_query_engine (QueryEngine_SelectWhere p)"

definition Server_GetState :: "(raft_server, RaftState) comp" where
  "Server_GetState = GetState"

definition Server_GetCommitIndex :: "(raft_server, int) comp" where
  "Server_GetCommitIndex = GetCommitIndex"


section \<open>Correctness\<close>




text \<open>
  C30. A write submitted to the leader becomes the last entry of its log, in the current term,
  and the state machine will execute exactly the submitted command; a write submitted to a
  node that is not the leader is refused and changes nothing.
\<close>

theorem submit_write:
  assumes "command_ok cmd"
  shows "(raft_state n \<noteq> LEADER \<longrightarrow> SubmitWrite cmd n = (Inr False, n)) \<and>
    (raft_state n = LEADER \<longrightarrow> (\<exists>e. SubmitWrite cmd n = (Inr True, n\<lparr>log_entries := log_entries n @ [e]\<rparr>) \<and>
       entry_term e = current_term n \<and> entry_index e = int (length (log_entries n)) \<and>
       Deserialize (command e) = cmd))"
proof -
  have "Deserialize (Serialize cmd) = cmd" by (rule command_reads [OF assms])
  then show ?thesis
    by (intro conjI impI exI [of _ "\<lparr>entry_term = current_term n, entry_index = int (length (log_entries n)),
        command = Serialize cmd\<rparr>"]) (simp_all add: SubmitWrite_def GetState_def Propose_def steps)
qed

theorem submit_write_witness:
  "\<exists>e. SubmitWrite \<lparr>cmd_type = CMD_DELETE, cmd_id = 4, cmd_name = [], cmd_value = 0\<rparr>
      ((RaftServer 0 [] 1 None)\<lparr>raft_state := LEADER\<rparr>) =
    (Inr True, (RaftServer 0 [] 1 None)\<lparr>raft_state := LEADER, log_entries := log_entries (RaftServer 0 [] 1 None) @ [e]\<rparr>) \<and>
    Deserialize (command e) = \<lparr>cmd_type = CMD_DELETE, cmd_id = 4, cmd_name = [], cmd_value = 0\<rparr>"
  using submit_write [of "\<lparr>cmd_type = CMD_DELETE, cmd_id = 4, cmd_name = [], cmd_value = 0\<rparr>"
      "(RaftServer 0 [] 1 None)\<lparr>raft_state := LEADER\<rparr>"]
  by (auto simp: command_ok_def in_i64_def)

end
