(* ===== verification/Demo_Program.thy ===== *)
theory Demo_Program
  imports Disk_Manager
begin

text \<open>
  The demonstration program (\<open>src/src/main.cpp\<close>): it opens a file, writes a message into a new
  page, reads the page back and prints it up to the first zero byte. The outcome of opening
  the file is an argument, as in \<open>DiskManager\<close>; the result is what is printed.
\<close>

definition main_message :: bytes where
  "main_message = map of_char ''Hello from QuorumDB''"

definition main_program :: "bytes option \<Rightarrow> bool \<Rightarrow> bool \<Rightarrow> bytes res" where
  "main_program existing create_ok reopen_ok =
     (case DiskManager existing create_ok reopen_ok of
        Inl e \<Rightarrow> Inl e
      | Inr disk_manager \<Rightarrow> fst (
          bindM AllocatePage (\<lambda>p.
          let pg = Page\<lparr>pg_id := p, pg_data := memcpy_at (pg_data Page) 0 (main_message @ [0])\<rparr> in
          thenM (WritePage (pg_id pg) (Some (pg_data pg))) (
          bindM (ReadPage (pg_id pg) (Some (pg_data Page))) (\<lambda>read_page.
          returnM (takeWhile (\<lambda>b. b \<noteq> 0) read_page)))) disk_manager))"

lemma main_message_facts: "length main_message = 19" "takeWhile (\<lambda>b. b \<noteq> 0) main_message = main_message"
  by code_simp+

lemma wf_DiskManager:
  assumes "DiskManager existing create_ok reopen_ok = Inr d" and "int (length (file_bytes d) div PAGE_SIZE) < 2 ^ 31"
  shows "wf_disk d" and "next_page_id d = int (length (file_bytes d) div PAGE_SIZE)" and "free_list d = []"
  using assms by (auto simp: DiskManager_def wf_disk_def in_i32_def split: sum.splits)

text \<open>
  C36. The demonstration prints its message, whatever the file contained before, as long as the
  file can be opened and has a page number left.
\<close>

theorem demo_prints_message:
  assumes "DiskManager existing create_ok reopen_ok = Inr d"
    and "int (length (file_bytes d) div PAGE_SIZE) < 2 ^ 31 - 1"
  shows "main_program existing create_ok reopen_ok = Inr (map of_char ''Hello from QuorumDB'')"
proof -
  define data where "data = memcpy_at (replicate PAGE_SIZE 0) 0 (main_message @ [0])"
  have "int (length (file_bytes d) div PAGE_SIZE) < 2 ^ 31" using assms(2) by simp
  note d = wf_DiskManager [OF assms(1) this]
  obtain p d1 where a: "AllocatePage d = (Inr p, d1)"
    using disk.alloc_succeeds [OF d(1)] d(2,3) assms(2) by (auto simp: room_def)
  note fresh = disk.alloc_fresh [OF d(1) a]
  have len: "length data = PAGE_SIZE"
    by (simp add: data_def memcpy_at_def main_message_facts PAGE_SIZE_def)
  have "pg_data Page = replicate PAGE_SIZE 0" by (simp add: Page_def ResetMemory_def)
  then have pg: "memcpy_at (pg_data Page) 0 (main_message @ [0]) = data" by (simp add: data_def)
  have shown: "takeWhile (\<lambda>b. b \<noteq> 0) data = main_message"
    using main_message_facts(2) by (simp add: data_def memcpy_at_def takeWhile_tail)
  obtain d2 where w: "WritePage p (Some data) d1 = (Inr (), d2)"
    and r: "\<And>b. ReadPage p (Some b) d2 = (Inr data, d2)"
    using disk.wr_content [of d1 p data] disk.rd_content fresh len by auto
  have "main_program existing create_ok reopen_ok = Inr main_message"
    using assms(1) a w r shown unfolding main_program_def by (simp add: pg Let_def run)
  then show ?thesis by (simp only: main_message_def)
qed

theorem demo_prints_message_witness:
  "main_program None True True = Inr (map of_char ''Hello from QuorumDB'')"
  by (rule demo_prints_message [OF empty_disk_DiskManager]) (simp add: empty_disk_def)

end
