(* ===== verification/Spec2Isabelle.thy ===== *)
theory Spec2Isabelle
  imports Table Rpc_Transport Rpc_Server_Stop Raft_Stale Raft_Address Raft_Server Demo_Program
begin

text \<open>
  Verification of QuorumDB, a replicated database in C++: a page file, a buffer pool, a B+
  tree, a write-ahead log and a table on top of them, and a Raft implementation that
  replicates the commands that change the table.

  \<^bold>\<open>The program and its model.\<close> All sources are under \<open>src/src/\<close>. A C++ object is a record of
  its members, a member function is a computation \<open>('s, 'a) comp\<close> on that record (theory
  \<open>Prelude\<close>): it returns a value or an exception, and in both cases the state that is left
  behind. Undefined behaviour (an index outside a vector, signed overflow, a null pointer) is
  the exception \<open>Undefined\<close>. A mutex makes a member function one atomic step. Integers are \<open>int\<close>
  with the conversions of C++ written where the source converts; bytes are 8-bit words.

  \<^item> \<open>Prelude\<close>, \<open>Bytes\<close>: computations, machine integers, binary search, byte buffers and the
    integer encodings that all formats share.
  \<^item> \<open>Disk_Manager\<close> (\<open>storage/page.h\<close>, \<open>storage/disk_manager.*\<close>): the file as its bytes, page
    allocation and the free list. Its contract is the locale \<open>page_device\<close>.
  \<^item> \<open>Buffer_Pool\<close>, \<open>Buffer_Pool_Spec\<close> (\<open>storage/buffer_pool_manager.*\<close>): frames, page table,
    LRU list and pins; the representation invariant, the abstract contents of the pages, what
    each operation does to them, and which operations lose a frame.
  \<^item> \<open>BPlus_Node\<close>, \<open>BPlus_Tree\<close> (\<open>storage/bplus_tree_node.h\<close>, \<open>storage/bplus_tree.*\<close>): the page
    format of nodes and all operations of the tree over the pool. \<open>BPlus_Store\<close> is the contract
    of node reads and writes (locale \<open>node_store\<close>), \<open>BPlus_Shape\<close> the trees that the pages
    represent, with one-hole contexts, and \<open>BPlus_Search\<close> the correctness of lookups and scans.
  \<^item> \<open>Log_Record\<close>, \<open>Wal_Manager\<close> (\<open>storage/log_record.h\<close>, \<open>storage/wal_manager.*\<close>): the log with
    the stream's buffer, the file and its synchronised part apart, so that a crash is a prefix
    of the file.
  \<^item> \<open>Table_Record\<close>, \<open>Table\<close> (\<open>query/*\<close>): records, the logged operations of a table, recovery and
    the query engine.
  \<^item> \<open>Rpc_Message\<close>, \<open>Rpc_Transport\<close>, \<open>Rpc_Server\<close>, \<open>Rpc_Server_Stop\<close> (\<open>rpc/*\<close>): the message format,
    sending and receiving over a stream that is cut anywhere, the client's attempts to connect,
    and the life cycle of the server as an interleaving of its threads with descriptors whose
    numbers the kernel reuses.
  \<^item> \<open>Log_Entry\<close>, \<open>Raft_Node\<close> (\<open>raft/log_entry.h\<close>, \<open>raft/raft_command.h\<close>, \<open>raft/raft_node.*\<close>): wire
    formats and every handler of a node. \<open>Raft_Cluster\<close> composes nodes over a network that may
    lose, delay, reorder and repeat messages; \<open>Raft_Trace\<close> runs clusters; \<open>Raft_Safety\<close> has the
    invariant of reachable clusters, with majorities as the locale \<open>quorum\<close>; \<open>Raft_Commit\<close>,
    \<open>Raft_Progress\<close> and \<open>Raft_Replication\<close> say how entries are committed, applied and replicated
    and that elections succeed; \<open>Raft_Stale\<close> has the runs with late replies; \<open>Raft_Address\<close> the
    peer addresses.
  \<^item> \<open>State_Machine\<close>, \<open>Raft_Server\<close> (\<open>raft/state_machine.*\<close>, \<open>raft/raft_server.*\<close>): executing
    replicated commands on the query engine and the server that puts the parts together.
  \<^item> \<open>Demo_Program\<close> (\<open>main.cpp\<close>).

  \<^bold>\<open>What is shown.\<close> Every format is read back from what is written, and what a parser accepts is
  bounded. The pool keeps its invariant and the contents of the pages; searches and scans of
  the tree agree with the sorted list of pairs that it represents. After a crash the log holds a
  prefix of what was appended, with everything that was synchronised. In a cluster at most one
  node is leader of a term and logs match; the leader commits what a majority stores, committed
  commands reach the state machine once and in order, a follower's log converges to the
  leader's. Stopping the RPC server leaves no thread and no descriptor behind.

  \<^bold>\<open>Where the code does less.\<close> The theorems of kind error exhibit runs in which the code loses a
  frame of the pool, hides log records behind a torn one, replaces a committed entry, commits
  an entry after a late reply, reads outside the leader's log, or waits for a connection that
  was not shut down.

  \<^bold>\<open>Bounds.\<close> The loops of the tree that follow page ids take as fuel the number of page ids ever
  handed out; a path in the tree repeats no page, so this is enough, and the theorems on the
  tree say that the operations return. The loops of the Raft node run over its log and take the
  number of rounds from it. Other recursion is structural or has a measure.

  \<^bold>\<open>Not modelled.\<close> Destructors, the bookkeeping of finished threads in the Raft node
  (\<open>JoinRpcThreads\<close>, \<open>ReapRpcThreadsLocked\<close>), timeouts of sockets and the memory allocator; the
  results of system calls, the clock and the random timeouts are arguments. The model of the
  client and of the server share the functions that both sources contain as copies.
\<close>

end
